theory Spec2Isabelle
  imports Complex_Main
begin

section \<open>JavaScript numbers\<close>

text \<open>
  The program of \<^verbatim>\<open>src/index.tsx\<close> computes with JavaScript numbers, which are IEEE 754
  double precision values. A number is modelled as a real or one of the three special
  values; the finite numbers of the program are the reals that a double can hold
  (\<open>is_double\<close> below). The comparisons of the source (\<^verbatim>\<open><\<close>, \<^verbatim>\<open><=\<close>, \<^verbatim>\<open>>\<close>, \<^verbatim>\<open>===\<close>) are all
  false as soon as one side is \<^verbatim>\<open>NaN\<close>. The two zeros are one value: the program never
  divides by a zero, and in no other place does it tell them apart.
\<close>

datatype number = Fin real | PosInf | NegInf | NaN

fun js_lt :: "number \<Rightarrow> number \<Rightarrow> bool" where
  "js_lt NaN _ = False"
| "js_lt _ NaN = False"
| "js_lt (Fin x) (Fin y) = (x < y)"
| "js_lt (Fin _) PosInf = True"
| "js_lt (Fin _) NegInf = False"
| "js_lt NegInf NegInf = False"
| "js_lt NegInf _ = True"
| "js_lt PosInf _ = False"

fun strict_eq :: "number \<Rightarrow> number \<Rightarrow> bool" where
  "strict_eq NaN _ = False"
| "strict_eq _ NaN = False"
| "strict_eq x y = (x = y)"

definition js_le :: "number \<Rightarrow> number \<Rightarrow> bool" where
  "js_le x y = (js_lt x y \<or> strict_eq x y)"

definition js_gt :: "number \<Rightarrow> number \<Rightarrow> bool" where
  "js_gt x y = js_lt y x"

subsection \<open>Rounding to a double\<close>

text \<open>
  The number of binary digits of a natural number, and with it the binary exponent of a
  real that is not zero: the \<open>e\<close> with \<open>2\<^sup>e \<le> \<bar>x\<bar> < 2\<^sup>e\<^sup>+\<^sup>1\<close>.
\<close>

fun bit_length :: "nat \<Rightarrow> nat" where
  "bit_length n = (if n = 0 then 0 else Suc (bit_length (n div 2)))"

declare bit_length.simps [simp del]

definition expo :: "real \<Rightarrow> int" where
  "expo x =
     (if 1 \<le> \<bar>x\<bar> then int (bit_length (nat \<lfloor>\<bar>x\<bar>\<rfloor>)) - 1
      else - int (bit_length (nat (\<lceil>1 / \<bar>x\<bar>\<rceil> - 1))))"

text \<open>
  Around \<open>x\<close> the doubles are the whole multiples of \<open>quantum x\<close>: 53 binary digits, and
  never finer than \<open>2\<^sup>-\<^sup>1\<^sup>0\<^sup>7\<^sup>4\<close>, the step of the subnormal numbers.
\<close>

definition quantum :: "real \<Rightarrow> real" where
  "quantum x = 2 powi (max (expo x) (- 1022) - 52)"

text \<open>The nearest whole number, a tie going to the even one.\<close>

definition round_even :: "real \<Rightarrow> int" where
  "round_even m =
     (let f = \<lfloor>m\<rfloor>; d = m - of_int f
      in if d < 1 / 2 then f else if 1 / 2 < d then f + 1 else if even f then f else f + 1)"

definition rounded :: "real \<Rightarrow> real" where
  "rounded x = of_int (round_even (x / quantum x)) * quantum x"

text \<open>
  The result of an arithmetic operation whose exact value is \<open>x\<close>: the nearest double,
  and an infinity when that would be \<open>2\<^sup>1\<^sup>0\<^sup>2\<^sup>4\<close> or more in size.
\<close>

definition fl :: "real \<Rightarrow> number" where
  "fl x = (if 2 ^ 1024 \<le> \<bar>rounded x\<bar> then (if x < 0 then NegInf else PosInf)
           else Fin (rounded x))"

definition is_double :: "real \<Rightarrow> bool" where
  "is_double x = (fl x = Fin x)"

subsection \<open>Arithmetic\<close>

fun js_neg :: "number \<Rightarrow> number" where
  "js_neg (Fin x) = Fin (- x)"
| "js_neg PosInf = NegInf"
| "js_neg NegInf = PosInf"
| "js_neg NaN = NaN"

fun js_add :: "number \<Rightarrow> number \<Rightarrow> number" where
  "js_add NaN _ = NaN"
| "js_add _ NaN = NaN"
| "js_add (Fin x) (Fin y) = fl (x + y)"
| "js_add (Fin _) y = y"
| "js_add x (Fin _) = x"
| "js_add PosInf PosInf = PosInf"
| "js_add NegInf NegInf = NegInf"
| "js_add PosInf NegInf = NaN"
| "js_add NegInf PosInf = NaN"

definition js_sub :: "number \<Rightarrow> number \<Rightarrow> number" where
  "js_sub x y = js_add x (js_neg y)"

text \<open>The sign of a number that is not \<^verbatim>\<open>NaN\<close>: \<open>-1\<close>, \<open>0\<close> or \<open>1\<close>.\<close>

fun js_sign :: "number \<Rightarrow> real" where
  "js_sign (Fin x) = sgn x"
| "js_sign PosInf = 1"
| "js_sign NegInf = - 1"
| "js_sign NaN = 0"

definition signed_inf :: "real \<Rightarrow> number" where
  "signed_inf s = (if s < 0 then NegInf else PosInf)"

fun js_mul :: "number \<Rightarrow> number \<Rightarrow> number" where
  "js_mul NaN _ = NaN"
| "js_mul _ NaN = NaN"
| "js_mul (Fin x) (Fin y) = fl (x * y)"
| "js_mul x y = (if js_sign x * js_sign y = 0 then NaN else signed_inf (js_sign x * js_sign y))"

text \<open>
  Division. A finite number over an infinite one is zero, infinite over infinite is
  \<^verbatim>\<open>NaN\<close>. A zero divisor is taken as \<open>+0\<close>; the program divides only by the constants
  of \<^verbatim>\<open>formatDuration\<close> and by a difference it has tested against \<^verbatim>\<open><= 0\<close>.
\<close>

fun js_div :: "number \<Rightarrow> number \<Rightarrow> number" where
  "js_div NaN _ = NaN"
| "js_div _ NaN = NaN"
| "js_div (Fin x) (Fin y) =
     (if y = 0 then (if x = 0 then NaN else signed_inf x) else fl (x / y))"
| "js_div (Fin _) _ = Fin 0"
| "js_div x (Fin y) = signed_inf (js_sign x * (if y < 0 then - 1 else 1))"
| "js_div _ _ = NaN"

text \<open>
  The remainder operator \<^verbatim>\<open>%\<close> truncates the quotient towards zero and keeps the sign of
  the dividend; it is \<^verbatim>\<open>NaN\<close> for an infinite dividend or a zero divisor, and the
  dividend itself for an infinite divisor. Its result is exact: the remainder of two
  doubles is a double. So is the result of \<^verbatim>\<open>Math.floor\<close>.
\<close>

definition trunc :: "real \<Rightarrow> int" where
  "trunc q = (if 0 \<le> q then \<lfloor>q\<rfloor> else \<lceil>q\<rceil>)"

fun js_mod :: "number \<Rightarrow> number \<Rightarrow> number" where
  "js_mod NaN _ = NaN"
| "js_mod _ NaN = NaN"
| "js_mod (Fin x) (Fin y) = (if y = 0 then NaN else Fin (x - y * of_int (trunc (x / y))))"
| "js_mod (Fin x) _ = Fin x"
| "js_mod _ _ = NaN"

fun Math_floor :: "number \<Rightarrow> number" where
  "Math_floor (Fin x) = Fin (of_int \<lfloor>x\<rfloor>)"
| "Math_floor x = x"

fun is_finite :: "number \<Rightarrow> bool" where
  "is_finite (Fin _) = True"
| "is_finite _ = False"

section \<open>Data model\<close>

text \<open>
  \<^verbatim>\<open>interface HistoryItem { timestamp: number; percent: number }\<close>. The timestamp is
  \<^verbatim>\<open>new Date(data.last_updated).getTime()\<close>: a whole number of milliseconds of size at most
  \<open>8.64 \<times> 10\<^sup>1\<^sup>5\<close>, or \<^verbatim>\<open>NaN\<close> when the string is not a date. The percent is a number
  decoded from the JSON response, so it is never \<^verbatim>\<open>NaN\<close> (JSON has no such literal) but
  can be infinite (an overflowing literal).
\<close>

record HistoryItem =
  timestamp :: number
  percent :: number

type_synonym History = "HistoryItem list"

text \<open>
  A \<^verbatim>\<open>Date\<close> object is represented by its time value. \<^verbatim>\<open>new Date(v)\<close> clips the number
  \<open>v\<close>: a finite \<open>v\<close> of size at most \<open>8.64 \<times> 10\<^sup>1\<^sup>5\<close> is cut to a whole number of
  milliseconds, towards zero, and every other \<open>v\<close> gives the invalid date, whose time
  value is \<^verbatim>\<open>NaN\<close>.
\<close>

datatype Date = Date number

fun time_clip :: "number \<Rightarrow> number" where
  "time_clip (Fin v) = (if \<bar>v\<bar> \<le> 8640000000000000 then Fin (of_int (trunc v)) else NaN)"
| "time_clip _ = NaN"

definition new_Date :: "number \<Rightarrow> Date" where
  "new_Date v = Date (time_clip v)"

record Estimate =
  remainingMs :: number
  completionDate :: Date

datatype error = TypeError | SyntaxError

text \<open>
  Reading \<^verbatim>\<open>xs[i]\<close>: out of range the value is \<^verbatim>\<open>undefined\<close> (\<open>None\<close>); reading a
  property of \<^verbatim>\<open>undefined\<close> throws a \<^verbatim>\<open>TypeError\<close>.
\<close>

definition js_index :: "'a list \<Rightarrow> int \<Rightarrow> 'a option" where
  "js_index xs i = (if 0 \<le> i \<and> i < int (length xs) then Some (xs ! nat i) else None)"

definition get_prop :: "('a \<Rightarrow> 'b) \<Rightarrow> 'a option \<Rightarrow> error + 'b" where
  "get_prop f ob = (case ob of None \<Rightarrow> Inl TypeError | Some x \<Rightarrow> Inr (f x))"

definition bind :: "error + 'a \<Rightarrow> ('a \<Rightarrow> error + 'b) \<Rightarrow> error + 'b" where
  "bind m f = (case m of Inl e \<Rightarrow> Inl e | Inr x \<Rightarrow> f x)"

section \<open>The completion estimator\<close>

text \<open>
  The \<^verbatim>\<open>useMemo\<close> callback of \<^verbatim>\<open>Command\<close> (\<^verbatim>\<open>src/index.tsx\<close>, lines 85 to 104), as a
  function of the \<^verbatim>\<open>history\<close> state. \<open>Inr None\<close> is the \<^verbatim>\<open>null\<close> it returns, \<open>Inl\<close> an
  exception. The local constant \<^verbatim>\<open>msPerPercent\<close>, the rate, has a definition of its own so
  that it can be spoken of.
\<close>

definition msPerPercent :: "number \<Rightarrow> number \<Rightarrow> number" where
  "msPerPercent timeDiff percentDiff = js_div timeDiff percentDiff"

definition estimate :: "History \<Rightarrow> error + Estimate option" where
  "estimate history =
     (if int (length history) < 2 then Inr None
      else
        let first = js_index history 0;
            last = js_index history (int (length history) - 1)
        in
        bind (get_prop timestamp last) (\<lambda>last_timestamp.
        bind (get_prop timestamp first) (\<lambda>first_timestamp.
        bind (get_prop percent last) (\<lambda>last_percent.
        bind (get_prop percent first) (\<lambda>first_percent.
          let timeDiff = js_sub last_timestamp first_timestamp;
              percentDiff = js_sub last_percent first_percent
          in
          if js_le percentDiff (Fin 0) \<or> js_le timeDiff (Fin 0) then Inr None
          else
            let remainingPercent = js_sub (Fin 100) last_percent;
                remainingMs = js_mul remainingPercent (msPerPercent timeDiff percentDiff)
            in Inr (Some \<lparr> remainingMs = remainingMs,
                            completionDate = new_Date (js_add last_timestamp remainingMs) \<rparr>))))))"

section \<open>The persistent cache and JSON\<close>

text \<open>
  Values as \<^verbatim>\<open>JSON.parse\<close> produces them and \<^verbatim>\<open>JSON.stringify\<close> consumes them.
\<close>

datatype jsval =
    JNull
  | JBool bool
  | JNum number
  | JStr string
  | JArr "jsval list"
  | JObj "(string \<times> jsval) list"

text \<open>
  The cache stores text. A text is modelled by what \<^verbatim>\<open>JSON.parse\<close> makes of it: the
  empty string, a string that is not JSON, or a JSON document, represented by the value it
  parses to. The concrete syntax of documents is not modelled.
\<close>

datatype stored_text = Empty | Malformed | Doc jsval

text \<open>
  \<^verbatim>\<open>JSON.stringify\<close> writes a number that is not finite as \<^verbatim>\<open>null\<close>, at any depth.
\<close>

primrec json_form :: "jsval \<Rightarrow> jsval" where
  "json_form JNull = JNull"
| "json_form (JBool b) = JBool b"
| "json_form (JNum n) = (if is_finite n then JNum n else JNull)"
| "json_form (JStr s) = JStr s"
| "json_form (JArr vs) = JArr (map json_form vs)"
| "json_form (JObj kvs) = JObj (map (map_prod id json_form) kvs)"

definition JSON_stringify :: "jsval \<Rightarrow> stored_text" where
  "JSON_stringify v = Doc (json_form v)"

fun JSON_parse :: "stored_text \<Rightarrow> error + jsval" where
  "JSON_parse (Doc v) = Inr v"
| "JSON_parse _ = Inl SyntaxError"

text \<open>The object literal \<^verbatim>\<open>{ timestamp, percent: currentPercent }\<close> and an array of them.\<close>

definition item_value :: "HistoryItem \<Rightarrow> jsval" where
  "item_value i = JObj [(''timestamp'', JNum (timestamp i)), (''percent'', JNum (percent i))]"

definition history_value :: "History \<Rightarrow> jsval" where
  "history_value h = JArr (map item_value h)"

text \<open>
  Whether a value has the shape of the type \<^verbatim>\<open>HistoryItem[]\<close>: an array of objects whose
  \<^verbatim>\<open>timestamp\<close> and \<^verbatim>\<open>percent\<close> are numbers.
\<close>

fun is_number :: "jsval option \<Rightarrow> bool" where
  "is_number (Some (JNum _)) = True"
| "is_number _ = False"

fun is_HistoryItem :: "jsval \<Rightarrow> bool" where
  "is_HistoryItem (JObj kvs) = (is_number (map_of kvs ''timestamp'') \<and> is_number (map_of kvs ''percent''))"
| "is_HistoryItem _ = False"

fun is_History :: "jsval \<Rightarrow> bool" where
  "is_History (JArr vs) = list_all is_HistoryItem vs"
| "is_History _ = False"

text \<open>
  The \<^verbatim>\<open>Cache\<close> of \<^verbatim>\<open>@raycast/api\<close>: the entries, and the calls of \<^verbatim>\<open>set\<close> made so far,
  oldest first.
\<close>

record Cache =
  entries :: "string \<Rightarrow> stored_text option"
  journal :: "(string \<times> stored_text) list"

definition cache_get :: "Cache \<Rightarrow> string \<Rightarrow> stored_text option" where
  "cache_get c k = entries c k"

definition cache_set :: "Cache \<Rightarrow> string \<Rightarrow> stored_text \<Rightarrow> Cache" where
  "cache_set c k v = c \<lparr> entries := (entries c)(k \<mapsto> v), journal := journal c @ [(k, v)] \<rparr>"

definition empty_cache :: Cache where
  "empty_cache = \<lparr> entries = (\<lambda>k. None), journal = [] \<rparr>"

text \<open>\<^verbatim>\<open>cache.set("migration_history", JSON.stringify(newHistory))\<close>\<close>

definition persist :: "Cache \<Rightarrow> History \<Rightarrow> Cache" where
  "persist c newHistory = cache_set c ''migration_history'' (JSON_stringify (history_value newHistory))"

section \<open>Recording an observation\<close>

text \<open>
  The updater passed to \<^verbatim>\<open>setHistory\<close> in the second effect of \<^verbatim>\<open>Command\<close> (lines 63 to
  82), with the cache it writes to. \<^verbatim>\<open>currentPercent\<close> and \<^verbatim>\<open>timestamp\<close> are read from the
  response before the updater runs. \<^verbatim>\<open>lastItem\<close> is \<^verbatim>\<open>undefined\<close> for an empty history and
  an object, which is truthy, otherwise.
\<close>

definition record_observation :: "number \<Rightarrow> number \<Rightarrow> History \<times> Cache \<Rightarrow> History \<times> Cache" where
  "record_observation currentPercent time st =
     (let prev = fst st; cache = snd st;
          lastItem = js_index prev (int (length prev) - 1);
          appended = prev @ [\<lparr> timestamp = time, percent = currentPercent \<rparr>]
      in case lastItem of
           None \<Rightarrow> (appended, persist cache appended)
         | Some li \<Rightarrow>
             if js_lt currentPercent (percent li) then
               (let newHistory = [\<lparr> timestamp = time, percent = currentPercent \<rparr>]
                in (newHistory, persist cache newHistory))
             else if strict_eq (percent li) currentPercent then (prev, cache)
             else (appended, persist cache appended))"

text \<open>A sequence of polls, each a pair of the percent and the timestamp, oldest first.\<close>

definition record_all :: "(number \<times> number) list \<Rightarrow> History \<times> Cache \<Rightarrow> History \<times> Cache" where
  "record_all polls st = foldl (\<lambda>s poll. record_observation (fst poll) (snd poll) s) st polls"

section \<open>Loading the history\<close>

definition try_catch :: "error + 'a \<Rightarrow> (error \<Rightarrow> error + 'a) \<Rightarrow> error + 'a" where
  "try_catch body handler = (case body of Inl e \<Rightarrow> handler e | Inr x \<Rightarrow> Inr x)"

text \<open>
  The first effect of \<^verbatim>\<open>Command\<close> (lines 46 to 55). The \<^verbatim>\<open>history\<close> state starts as the
  empty array. The result is the state after the effect and the lines written by
  \<^verbatim>\<open>console.error\<close>. The empty string is falsy, as \<^verbatim>\<open>undefined\<close> is.
\<close>

definition load :: "Cache \<Rightarrow> error + (jsval \<times> string list)" where
  "load cache =
     (case cache_get cache ''migration_history'' of
        None \<Rightarrow> Inr (JArr [], [])
      | Some cached \<Rightarrow>
          if cached = Empty then Inr (JArr [], [])
          else try_catch
                 (bind (JSON_parse cached) (\<lambda>parsed. Inr (parsed, [])))
                 (\<lambda>e. Inr (JArr [], [''Failed to parse history''])))"

section \<open>Formatting a duration\<close>

text \<open>
  A template literal turns a number into text. For a whole number of size below
  \<open>10\<^sup>2\<^sup>1\<close> JavaScript prints its decimal digits. For every other finite number it
  prints a fraction or the exponent notation; that text is not modelled, it is the
  parameter \<open>sci\<close>.
\<close>

definition digit_char :: "nat \<Rightarrow> char" where
  "digit_char d = ''0123456789'' ! d"

fun digits :: "nat \<Rightarrow> string" where
  "digits n = (if n < 10 then [digit_char n] else digits (n div 10) @ [digit_char (n mod 10)])"

declare digits.simps [simp del]

fun to_string :: "(real \<Rightarrow> string) \<Rightarrow> number \<Rightarrow> string" where
  "to_string sci (Fin x) =
     (if x = of_int \<lfloor>x\<rfloor> \<and> \<bar>x\<bar> < 10 ^ 21
      then (if x < 0 then ''-'' @ digits (nat \<lfloor>- x\<rfloor>) else digits (nat \<lfloor>x\<rfloor>))
      else sci x)"
| "to_string sci PosInf = ''Infinity''"
| "to_string sci NegInf = ''-Infinity''"
| "to_string sci NaN = ''NaN''"

fun join :: "string \<Rightarrow> string list \<Rightarrow> string" where
  "join sep [] = []"
| "join sep [x] = x"
| "join sep (x # y # ys) = x @ sep @ join sep (y # ys)"

text \<open>
  \<^verbatim>\<open>formatDuration\<close> (lines 258 to 272). Its three local constants have definitions of
  their own.
\<close>

definition minutes_of :: "number \<Rightarrow> number" where
  "minutes_of ms = Math_floor (js_mod (js_div ms (Fin (1000 * 60))) (Fin 60))"

definition hours_of :: "number \<Rightarrow> number" where
  "hours_of ms = Math_floor (js_mod (js_div ms (Fin (1000 * 60 * 60))) (Fin 24))"

definition days_of :: "number \<Rightarrow> number" where
  "days_of ms = Math_floor (js_div ms (Fin (1000 * 60 * 60 * 24)))"

definition formatDuration :: "(real \<Rightarrow> string) \<Rightarrow> number \<Rightarrow> string" where
  "formatDuration sci ms =
     (if js_lt ms (Fin 0) then ''Unknown''
      else
        let minutes = minutes_of ms;
            hours = hours_of ms;
            days = days_of ms;
            parts = (if js_gt days (Fin 0) then [to_string sci days @ ''d''] else [])
                  @ (if js_gt hours (Fin 0) then [to_string sci hours @ ''h''] else [])
                  @ (if js_gt minutes (Fin 0) then [to_string sci minutes @ ''m''] else [])
        in if length parts = 0 then ''< 1m'' else join '' '' parts)"

section \<open>Properties stated by the specification\<close>

text \<open>
  The invariant of a History, on consecutive samples \<open>a\<close>, \<open>b\<close>: the percent does not
  decrease and is not repeated, both read with the comparisons of the program.
\<close>

definition percent_step_ok :: "HistoryItem \<Rightarrow> HistoryItem \<Rightarrow> bool" where
  "percent_step_ok a b = (\<not> js_lt (percent b) (percent a) \<and> \<not> strict_eq (percent a) (percent b))"

definition history_invariant :: "History \<Rightarrow> bool" where
  "history_invariant h = successively percent_step_ok h"

definition strictly_increasing :: "History \<Rightarrow> bool" where
  "strictly_increasing h = successively (\<lambda>a b. js_lt (percent a) (percent b)) h"

text \<open>
  The duration text in the words of the specification: of the components given, each a
  number with its unit, those that are not zero, separated by spaces, and \<^verbatim>\<open>< 1m\<close> when
  all are zero.
\<close>

definition duration_text :: "(real \<Rightarrow> string) \<Rightarrow> (number \<times> string) list \<Rightarrow> string" where
  "duration_text sci components =
     (let shown = filter (\<lambda>c. fst c \<noteq> Fin 0) components
      in if shown = [] then ''< 1m''
         else join '' '' (map (\<lambda>c. to_string sci (fst c) @ snd c) shown))"

text \<open>A whole number that is not negative, as a number of the program.\<close>

definition whole :: "nat \<Rightarrow> number" where
  "whole n = Fin (real n)"

text \<open>A number that is not negative: zero or more, or \<^verbatim>\<open>NaN\<close>.\<close>

fun never_negative :: "number \<Rightarrow> bool" where
  "never_negative (Fin y) = (0 \<le> y)"
| "never_negative PosInf = True"
| "never_negative NaN = True"
| "never_negative NegInf = False"

section \<open>Rounding to a double: proofs\<close>

lemma bit_length_bounds:
  "0 < n \<Longrightarrow> 2 ^ (bit_length n - 1) \<le> n \<and> n < 2 ^ bit_length n"
proof (induction n rule: bit_length.induct)
  case (1 n)
  show ?case
  proof (cases "n div 2 = 0")
    case True
    then have "n = 1" using "1.prems" by presburger
    then show ?thesis by (simp add: bit_length.simps)
  next
    case False
    then have pos: "0 < n div 2" by simp
    have n0: "n \<noteq> 0" using "1.prems" by simp
    from "1.IH" [OF n0 pos]
    have lo: "2 ^ (bit_length (n div 2) - 1) \<le> n div 2"
      and hi: "n div 2 < 2 ^ bit_length (n div 2)" by simp_all
    have b: "bit_length n = Suc (bit_length (n div 2))" using n0 by (simp add: bit_length.simps)
    have b1: "0 < bit_length (n div 2)" using False by (simp add: bit_length.simps)
    then have "(2::nat) ^ bit_length (n div 2) = 2 * 2 ^ (bit_length (n div 2) - 1)"
      by (cases "bit_length (n div 2)") simp_all
    then have "2 ^ bit_length (n div 2) \<le> 2 * (n div 2)" using lo by simp
    also have "\<dots> \<le> n" by simp
    finally have l: "2 ^ (bit_length n - 1) \<le> n" using b by simp
    have "n < 2 * (n div 2) + 2" by presburger
    also have "\<dots> \<le> 2 * 2 ^ bit_length (n div 2)" using hi by simp
    finally have "n < 2 ^ bit_length n" using b by simp
    then show ?thesis using l by simp
  qed
qed

lemma bit_length_pos: "0 < n \<Longrightarrow> 0 < bit_length n"
  by (simp add: bit_length.simps)

lemma real_le_pow2: "(m::nat) \<le> 2 ^ b \<Longrightarrow> real m \<le> 2 ^ b"
proof -
  assume "m \<le> 2 ^ b"
  then have "real m \<le> real (2 ^ b)" by (simp only: of_nat_le_iff)
  then show ?thesis by simp
qed

lemma pow2_le_real: "2 ^ b \<le> (m::nat) \<Longrightarrow> 2 ^ b \<le> real m"
proof -
  assume "2 ^ b \<le> m"
  then have "real (2 ^ b) \<le> real m" by (simp only: of_nat_le_iff)
  then show ?thesis by simp
qed

lemma expo_bounds:
  assumes "x \<noteq> 0"
  shows "2 powi expo x \<le> \<bar>x\<bar> \<and> \<bar>x\<bar> < 2 powi (expo x + 1)"
proof (cases "1 \<le> \<bar>x\<bar>")
  case True
  define n where "n = nat \<lfloor>\<bar>x\<bar>\<rfloor>"
  have n1: "0 < n" using True by (simp add: n_def)
  have e: "expo x = int (bit_length n) - 1" using True by (simp add: expo_def n_def)
  have bl: "0 < bit_length n" using n1 by (rule bit_length_pos)
  from bit_length_bounds [OF n1]
  have lo: "2 ^ (bit_length n - 1) \<le> n" and hi: "n < 2 ^ bit_length n" by simp_all
  have nx: "real n \<le> \<bar>x\<bar>" and xn: "\<bar>x\<bar> < real n + 1"
    using True by (simp_all add: n_def)
  have "(2::real) powi expo x = 2 ^ (bit_length n - 1)"
    using bl e by (simp add: power_int_def nat_diff_distrib)
  also have "\<dots> \<le> real n" using lo by (rule pow2_le_real)
  finally have l: "2 powi expo x \<le> \<bar>x\<bar>" using nx by simp
  have "n + 1 \<le> 2 ^ bit_length n" using hi by simp
  then have "real (n + 1) \<le> 2 ^ bit_length n" by (rule real_le_pow2)
  then have "real n + 1 \<le> 2 ^ bit_length n" by simp
  moreover have "(2::real) powi (expo x + 1) = 2 ^ bit_length n"
    using e by (simp add: power_int_def)
  ultimately show ?thesis using l xn by simp
next
  case False
  define y where "y = 1 / \<bar>x\<bar>"
  have x0: "0 < \<bar>x\<bar>" using assms by simp
  have y1: "1 < y" using False x0 by (simp add: y_def)
  define k where "k = nat (\<lceil>y\<rceil> - 1)"
  have "2 \<le> \<lceil>y\<rceil>" using y1 by (simp add: le_ceiling_iff)
  then have k1: "0 < k" by (simp add: k_def)
  have ky: "real k < y" and yk: "y \<le> real k + 1"
    using \<open>2 \<le> \<lceil>y\<rceil>\<close> by (simp_all add: k_def less_ceiling_iff ceiling_correct of_nat_nat)
  have e: "expo x = - int (bit_length k)" using False by (simp add: expo_def k_def y_def)
  have bl: "0 < bit_length k" using k1 by (rule bit_length_pos)
  from bit_length_bounds [OF k1]
  have lo: "2 ^ (bit_length k - 1) \<le> k" and hi: "k < 2 ^ bit_length k" by simp_all
  have "k + 1 \<le> 2 ^ bit_length k" using hi by simp
  then have "real (k + 1) \<le> 2 ^ bit_length k" by (rule real_le_pow2)
  then have "real k + 1 \<le> 2 ^ bit_length k" by simp
  then have "y \<le> 2 ^ bit_length k" using yk by simp
  then have "1 / 2 ^ bit_length k \<le> \<bar>x\<bar>"
    using x0 by (simp add: y_def field_simps)
  moreover have "(2::real) powi expo x = 1 / 2 ^ bit_length k"
    using e by (simp add: power_int_minus_divide)
  ultimately have l: "2 powi expo x \<le> \<bar>x\<bar>" by simp
  have "(2::real) ^ (bit_length k - 1) \<le> real k"
    using lo by (rule pow2_le_real)
  then have "2 ^ (bit_length k - 1) < y" using ky by linarith
  then have u: "\<bar>x\<bar> < 1 / 2 ^ (bit_length k - 1)"
    using x0 by (simp add: y_def field_simps)
  have "expo x + 1 = - int (bit_length k - 1)" using e bl by simp
  then have "(2::real) powi (expo x + 1) = 1 / 2 ^ (bit_length k - 1)"
    by (simp add: power_int_minus_divide)
  then show ?thesis using l u by simp
qed

lemma pow2i_less: "(2::real) powi a < 2 powi b \<Longrightarrow> a < b"
proof (rule ccontr)
  assume l: "(2::real) powi a < 2 powi b" and "\<not> a < b"
  then have "b \<le> a" by simp
  then have "(2::real) powi b \<le> 2 powi a" by (rule power_int_increasing) simp
  then show False using l by simp
qed

lemma expo_unique:
  assumes "2 powi e \<le> \<bar>x\<bar>" and "\<bar>x\<bar> < 2 powi (e + 1)"
  shows "expo x = e"
proof -
  have p: "0 < (2::real) powi e" by simp
  have "0 < \<bar>x\<bar>" using p assms(1) by linarith
  then have x0: "x \<noteq> 0" by auto
  from expo_bounds [OF x0]
  have lo: "2 powi expo x \<le> \<bar>x\<bar>" and hi: "\<bar>x\<bar> < 2 powi (expo x + 1)" by simp_all
  have "(2::real) powi e < 2 powi (expo x + 1)" using assms(1) hi by simp
  then have a: "e < expo x + 1" by (rule pow2i_less)
  have "(2::real) powi expo x < 2 powi (e + 1)" using lo assms(2) by simp
  then have "expo x < e + 1" by (rule pow2i_less)
  then show ?thesis using a by simp
qed

lemma round_even_of_int: "round_even (of_int j) = j"
  by (simp add: round_even_def)

lemma round_even_ge: "of_int j \<le> m \<Longrightarrow> j \<le> round_even m"
proof -
  assume "of_int j \<le> m"
  then have "j \<le> \<lfloor>m\<rfloor>" by (simp add: le_floor_iff)
  then show ?thesis by (simp add: round_even_def Let_def)
qed

lemma round_even_le: "m \<le> of_int j \<Longrightarrow> round_even m \<le> j"
proof (cases "m = of_int j")
  case True
  then show ?thesis by (simp add: round_even_of_int)
next
  case False
  assume "m \<le> of_int j"
  then have "m < of_int j" using False by simp
  then have "\<lfloor>m\<rfloor> < j" by (simp add: floor_less_iff)
  then show ?thesis by (simp add: round_even_def Let_def)
qed

lemma round_even_below_half: "m < of_int j + 1 / 2 \<Longrightarrow> round_even m \<le> j"
proof -
  assume a: "m < of_int j + 1 / 2"
  have "\<lfloor>m\<rfloor> \<le> j"
  proof -
    have "m < of_int (j + 1)" using a by simp
    then have "\<lfloor>m\<rfloor> < j + 1" by (simp only: floor_less_iff)
    then show ?thesis by simp
  qed
  then consider "\<lfloor>m\<rfloor> = j" | "\<lfloor>m\<rfloor> + 1 \<le> j" by linarith
  then show ?thesis
  proof cases
    case 1
    then have "m - of_int \<lfloor>m\<rfloor> < 1 / 2" using a by simp
    then show ?thesis using 1 by (simp add: round_even_def Let_def)
  next
    case 2
    then show ?thesis by (simp add: round_even_def Let_def)
  qed
qed

lemma quantum_pos: "0 < quantum x"
  by (simp add: quantum_def)

lemma rounded_ge: "of_int j * quantum x \<le> x \<Longrightarrow> of_int j * quantum x \<le> rounded x"
proof -
  assume "of_int j * quantum x \<le> x"
  then have "of_int j \<le> x / quantum x" using quantum_pos [of x] by (simp add: field_simps)
  then have "j \<le> round_even (x / quantum x)" by (rule round_even_ge)
  then have "of_int j \<le> (of_int (round_even (x / quantum x)) :: real)" by simp
  then show ?thesis
    unfolding rounded_def using quantum_pos [of x] by (simp add: mult_right_mono)
qed

lemma rounded_le: "x \<le> of_int j * quantum x \<Longrightarrow> rounded x \<le> of_int j * quantum x"
proof -
  assume "x \<le> of_int j * quantum x"
  then have "x / quantum x \<le> of_int j" using quantum_pos [of x] by (simp add: field_simps)
  then have "round_even (x / quantum x) \<le> j" by (rule round_even_le)
  then have "(of_int (round_even (x / quantum x)) :: real) \<le> of_int j" by simp
  then show ?thesis
    unfolding rounded_def using quantum_pos [of x] by (simp add: mult_right_mono)
qed

lemma rounded_nonneg: "0 \<le> x \<Longrightarrow> 0 \<le> rounded x"
  using rounded_ge [of 0 x] by simp

lemma expo_zero: "expo 0 = 0"
  by (simp add: expo_def bit_length.simps)

lemma expo_less: "x \<noteq> 0 \<Longrightarrow> \<bar>x\<bar> < 2 powi k \<Longrightarrow> expo x < k"
proof -
  assume "x \<noteq> 0" and a: "\<bar>x\<bar> < 2 powi k"
  then have "2 powi expo x \<le> \<bar>x\<bar>" using expo_bounds by blast
  then have "(2::real) powi expo x < 2 powi k" using a by linarith
  then show ?thesis by (rule pow2i_less)
qed

lemma expo_ge: "2 powi k \<le> \<bar>x\<bar> \<Longrightarrow> k \<le> expo x"
proof -
  assume a: "2 powi k \<le> \<bar>x\<bar>"
  have p: "0 < (2::real) powi k" by simp
  have "0 < \<bar>x\<bar>" using p a by linarith
  then have "x \<noteq> 0" by auto
  then have "\<bar>x\<bar> < 2 powi (expo x + 1)" using expo_bounds by blast
  then have "(2::real) powi k < 2 powi (expo x + 1)" using a by linarith
  then have "k < expo x + 1" by (rule pow2i_less)
  then show ?thesis by simp
qed

lemma quantum_top: "of_int (2 ^ 53) * quantum x = 2 powi (max (expo x) (- 1022) + 1)"
proof -
  have "max (expo x) (- 1022) + 1 = 53 + (max (expo x) (- 1022) - 52)" by linarith
  then have "(2::real) powi (max (expo x) (- 1022) + 1) = 2 powi (53 + (max (expo x) (- 1022) - 52))"
    by (rule arg_cong)
  also have "\<dots> = 2 powi 53 * 2 powi (max (expo x) (- 1022) - 52)"
    by (rule power_int_add) simp
  finally show ?thesis by (simp add: quantum_def)
qed

lemma quantum_bottom: "of_int (2 ^ 52) * quantum x = 2 powi (max (expo x) (- 1022))"
proof -
  have "max (expo x) (- 1022) = 52 + (max (expo x) (- 1022) - 52)" by linarith
  then have "(2::real) powi (max (expo x) (- 1022)) = 2 powi (52 + (max (expo x) (- 1022) - 52))"
    by (rule arg_cong)
  also have "\<dots> = 2 powi 52 * 2 powi (max (expo x) (- 1022) - 52)"
    by (rule power_int_add) simp
  finally show ?thesis by (simp add: quantum_def)
qed

lemma rounded_zero: "rounded 0 = 0"
  by (simp add: rounded_def round_even_def)

lemma rounded_le_pow:
  assumes "0 \<le> x" and "x < 2 powi k" and "- 1021 \<le> k"
  shows "rounded x \<le> 2 powi k"
proof (cases "x = 0")
  case True
  then show ?thesis by (simp add: rounded_zero)
next
  case False
  have ax: "\<bar>x\<bar> = x" using assms(1) by simp
  have "expo x < k" using False assms(2) ax by (simp add: expo_less)
  then have le: "max (expo x) (- 1022) + 1 \<le> k" using assms(3) by simp
  have "x < 2 powi (expo x + 1)" using expo_bounds [OF False] ax by simp
  also have "\<dots> \<le> 2 powi (max (expo x) (- 1022) + 1)"
    by (rule power_int_increasing) simp_all
  finally have "x \<le> of_int (2 ^ 53) * quantum x" by (simp only: quantum_top)
  then have "rounded x \<le> of_int (2 ^ 53) * quantum x" by (rule rounded_le)
  then have "rounded x \<le> 2 powi (max (expo x) (- 1022) + 1)" by (simp only: quantum_top)
  also have "\<dots> \<le> 2 powi k" using le by (rule power_int_increasing) simp
  finally show ?thesis .
qed

lemma fl_bounded:
  assumes "0 \<le> x" and "x < 2 powi k" and "- 1021 \<le> k" and "k \<le> 1023"
  shows "\<exists>y. fl x = Fin y \<and> 0 \<le> y \<and> y \<le> 2 powi k"
proof -
  have r: "rounded x \<le> 2 powi k" using assms(1,2,3) by (rule rounded_le_pow)
  have n: "0 \<le> rounded x" using assms(1) by (rule rounded_nonneg)
  have "(2::real) powi k \<le> 2 powi 1023" using assms(4) by (rule power_int_increasing) simp
  also have "(2::real) powi 1023 < 2 ^ 1024" by simp
  finally have "\<bar>rounded x\<bar> < 2 ^ 1024" using r n by simp
  then have "fl x = Fin (rounded x)" by (simp add: fl_def)
  then show ?thesis using r n by simp
qed

lemma fl_nonneg:
  assumes "0 \<le> x"
  shows "fl x = PosInf \<or> (\<exists>y. fl x = Fin y \<and> 0 \<le> y)"
  using rounded_nonneg [OF assms] assms by (simp add: fl_def)

lemma int_multiple:
  assumes "max (expo x) (- 1022) \<le> 52"
  shows "of_int n = of_int (n * 2 ^ nat (52 - max (expo x) (- 1022))) * quantum x"
proof -
  define d where "d = nat (52 - max (expo x) (- 1022))"
  have "max (expo x) (- 1022) - 52 = - int d" using assms by (simp add: d_def)
  then have "quantum x = 1 / 2 ^ d" by (simp add: quantum_def power_int_minus_divide)
  then show ?thesis by (simp add: d_def)
qed

lemma small_expo:
  assumes "\<bar>x\<bar> < 2 ^ 53"
  shows "max (expo x) (- 1022) \<le> 52"
proof (cases "x = 0")
  case True
  then show ?thesis by (simp add: expo_zero)
next
  case False
  have "\<bar>x\<bar> < 2 powi 53" using assms by simp
  then have "expo x < 53" using False by (rule expo_less [rotated]) 
  then show ?thesis by simp
qed

lemma rounded_int:
  assumes "\<bar>n\<bar> < 2 ^ 53"
  shows "rounded (of_int n) = of_int n"
proof -
  have "\<bar>real_of_int n\<bar> < 2 ^ 53"
  proof -
    have "real_of_int \<bar>n\<bar> < real_of_int (2 ^ 53)" using assms by (simp only: of_int_less_iff)
    then show ?thesis by simp
  qed
  then have s: "max (expo (of_int n)) (- 1022) \<le> 52" by (rule small_expo)
  note m = int_multiple [OF s, of n]
  have "of_int (n * 2 ^ nat (52 - max (expo (of_int n)) (- 1022))) * quantum (of_int n)
        \<le> rounded (of_int n)"
    by (rule rounded_ge) (simp only: m [symmetric] order_refl)
  moreover have "rounded (of_int n)
        \<le> of_int (n * 2 ^ nat (52 - max (expo (of_int n)) (- 1022))) * quantum (of_int n)"
    by (rule rounded_le) (simp only: m [symmetric] order_refl)
  ultimately show ?thesis using m by linarith
qed

lemma fl_int:
  assumes "\<bar>n\<bar> < 2 ^ 53"
  shows "fl (of_int n) = Fin (of_int n)"
proof -
  have "real_of_int \<bar>n\<bar> < real_of_int (2 ^ 53)" using assms by (simp only: of_int_less_iff)
  then have "\<bar>real_of_int n\<bar> < 2 ^ 53" by simp
  also have "(2::real) ^ 53 < 2 ^ 1024" by simp
  finally have "\<bar>rounded (of_int n)\<bar> < 2 ^ 1024" by (simp only: rounded_int [OF assms])
  then show ?thesis by (simp add: fl_def rounded_int [OF assms])
qed

lemma rounded_ge_int:
  assumes "\<bar>x\<bar> < 2 ^ 53" and "of_int n \<le> x"
  shows "of_int n \<le> rounded x"
proof -
  have s: "max (expo x) (- 1022) \<le> 52" using assms(1) by (rule small_expo)
  note m = int_multiple [OF s, of n]
  have "of_int (n * 2 ^ nat (52 - max (expo x) (- 1022))) * quantum x \<le> rounded x"
    by (rule rounded_ge) (use assms(2) m in linarith)
  then show ?thesis using m by linarith
qed

lemma rounded_ge_pow:
  assumes "2 ^ 53 \<le> x"
  shows "2 ^ 53 \<le> rounded x"
proof -
  have "(2::real) powi 53 \<le> \<bar>x\<bar>" using assms by simp
  then have e: "53 \<le> expo x" by (rule expo_ge)
  then have m: "max (expo x) (- 1022) = expo x" by simp
  have x0: "x \<noteq> 0" using assms by auto
  have "2 powi expo x \<le> x" using expo_bounds [OF x0] assms by simp
  then have "of_int (2 ^ 52) * quantum x \<le> x" by (simp only: quantum_bottom m)
  then have "of_int (2 ^ 52) * quantum x \<le> rounded x" by (rule rounded_ge)
  then have "2 powi expo x \<le> rounded x" by (simp only: quantum_bottom m)
  moreover have "(2::real) powi 53 \<le> 2 powi expo x" using e by (rule power_int_increasing) simp
  ultimately show ?thesis by simp
qed

lemma fl_numeral [simp]: "(numeral k :: int) < 2 ^ 53 \<Longrightarrow> fl (numeral k) = Fin (numeral k)"
  using fl_int [of "numeral k"] by simp

lemma fl_neg_numeral [simp]:
  "(numeral k :: int) < 2 ^ 53 \<Longrightarrow> fl (- numeral k) = Fin (- numeral k)"
  using fl_int [of "- numeral k"] by simp

lemma fl_zero [simp]: "fl 0 = Fin 0"
  using fl_int [of 0] by simp

lemma fl_one [simp]: "fl 1 = Fin 1"
  using fl_int [of 1] by simp

lemmas fl_eval = fl_def rounded_def quantum_def expo_def round_even_def Let_def bit_length.simps
  power_int_minus_divide

section \<open>The estimator: proofs\<close>

lemma estimate_short: "length h < 2 \<Longrightarrow> estimate h = Inr None"
  by (simp add: estimate_def)

lemma estimate_endpoints:
  assumes "2 \<le> length h"
  shows "estimate h =
    (if js_le (js_sub (percent (last h)) (percent (hd h))) (Fin 0)
        \<or> js_le (js_sub (timestamp (last h)) (timestamp (hd h))) (Fin 0)
     then Inr None
     else Inr (Some \<lparr> remainingMs =
                        js_mul (js_sub (Fin 100) (percent (last h)))
                          (msPerPercent (js_sub (timestamp (last h)) (timestamp (hd h)))
                                        (js_sub (percent (last h)) (percent (hd h)))),
                      completionDate = new_Date (js_add (timestamp (last h))
                        (js_mul (js_sub (Fin 100) (percent (last h)))
                          (msPerPercent (js_sub (timestamp (last h)) (timestamp (hd h)))
                                        (js_sub (percent (last h)) (percent (hd h)))))) \<rparr>))"
proof -
  from assms have ne: "h \<noteq> []" by auto
  have a: "h ! 0 = hd h" using ne by (simp add: hd_conv_nth)
  have "nat (int (length h) - 1) = length h - 1" by simp
  then have b: "h ! nat (int (length h) - 1) = last h" using ne by (simp add: last_conv_nth)
  show ?thesis
    using assms a b ne
    by (simp add: estimate_def js_index_def get_prop_def bind_def Let_def)
qed

lemma js_gt_not_le: "js_gt x (Fin 0) \<Longrightarrow> \<not> js_le x (Fin 0)"
  by (cases x) (auto simp add: js_gt_def js_le_def)

lemma fl_whole:
  fixes n :: int
  assumes "- 8640000000000000 \<le> n" and "n \<le> 8640000000000000"
  shows "fl (of_int n) = Fin (of_int n)"
  by (rule fl_int) (use assms in simp)

lemma trunc_of_int: "trunc (of_int n) = n"
  by (simp add: trunc_def)

lemma estimate_steps:
  assumes "js_sub t1 t0 = td" and "js_sub p1 p0 = pd"
    and "\<not> js_le pd (Fin 0)" and "\<not> js_le td (Fin 0)"
    and "msPerPercent td pd = r" and "js_sub (Fin 100) p1 = rp" and "js_mul rp r = rem"
    and "new_Date (js_add t1 rem) = d"
  shows "estimate [\<lparr> timestamp = t0, percent = p0 \<rparr>, \<lparr> timestamp = t1, percent = p1 \<rparr>] =
           Inr (Some \<lparr> remainingMs = rem, completionDate = d \<rparr>)"
  by (simp add: estimate_endpoints assms)

lemma estimate_example:
  assumes td: "js_sub t1 t0 = Fin 600000"
    and sum: "new_Date (js_add t1 (Fin 4800000)) = Date c"
  shows "estimate [\<lparr> timestamp = t0, percent = Fin 10 \<rparr>,
                   \<lparr> timestamp = t1, percent = Fin 20 \<rparr>] =
           Inr (Some \<lparr> remainingMs = Fin 4800000, completionDate = Date c \<rparr>)
         \<and> msPerPercent (js_sub t1 t0) (js_sub (Fin 20) (Fin 10)) = Fin 60000"
proof -
  have pd: "js_sub (Fin 20) (Fin 10) = Fin 10" by (simp add: js_sub_def)
  have rate: "msPerPercent (Fin 600000) (Fin 10) = Fin 60000"
    by (simp add: msPerPercent_def)
  have rp: "js_sub (Fin 100) (Fin 20) = Fin 80" by (simp add: js_sub_def)
  have rem: "js_mul (Fin 80) (Fin 60000) = Fin 4800000" by simp
  show ?thesis
    by (simp add: estimate_endpoints td pd rate rp rem sum js_le_def)
qed

text \<open>
  Claim C1, amended. For every History of at least two samples whose first and last
  samples differ, as the program computes the differences, by a positive percent and a
  positive time, \<open>estimate\<close> returns a result whose \<open>remainingMs\<close> is
  \<open>(100 - p1) * ((t1 - t0) / (p1 - p0))\<close>, each operation rounded to a double, and
  whose \<open>completionDate\<close> is the date made from \<open>t1\<close> plus that duration, rounded, cut to
  a whole millisecond and invalid when out of the range of dates; the samples in between
  do not change the result. For the History \<open>[(n, 10), (n + 600000, 20)]\<close>, in
  milliseconds, with \<open>n\<close> a whole number such that both dates are in range, the rate is
  \<open>60000\<close> per percent, the remaining duration \<open>4800000\<close> and the completion date
  \<open>n + 600000 + 4800000\<close>.
\<close>

theorem estimate_two_point:
  fixes h :: History and n :: int
  shows
  "(2 \<le> length h
      \<and> js_gt (js_sub (percent (last h)) (percent (hd h))) (Fin 0)
      \<and> js_gt (js_sub (timestamp (last h)) (timestamp (hd h))) (Fin 0)
    \<longrightarrow> estimate h =
           Inr (Some \<lparr> remainingMs =
                          js_mul (js_sub (Fin 100) (percent (last h)))
                            (msPerPercent (js_sub (timestamp (last h)) (timestamp (hd h)))
                                          (js_sub (percent (last h)) (percent (hd h)))),
                        completionDate = new_Date (js_add (timestamp (last h))
                          (js_mul (js_sub (Fin 100) (percent (last h)))
                            (msPerPercent (js_sub (timestamp (last h)) (timestamp (hd h)))
                                          (js_sub (percent (last h)) (percent (hd h)))))) \<rparr>)
         \<and> estimate h = estimate [hd h, last h])
   \<and> (- 8640000000000000 \<le> n \<and> n + 5400000 \<le> 8640000000000000
    \<longrightarrow> estimate [\<lparr> timestamp = Fin (of_int n), percent = Fin 10 \<rparr>,
                   \<lparr> timestamp = Fin (of_int (n + 600000)), percent = Fin 20 \<rparr>] =
           Inr (Some \<lparr> remainingMs = Fin 4800000,
                        completionDate = Date (Fin (of_int (n + 600000 + 4800000))) \<rparr>)
         \<and> msPerPercent (js_sub (Fin (of_int (n + 600000))) (Fin (of_int n)))
                         (js_sub (Fin 20) (Fin 10)) = Fin 60000)"
proof -
  have general: "estimate h =
           Inr (Some \<lparr> remainingMs =
                          js_mul (js_sub (Fin 100) (percent (last h)))
                            (msPerPercent (js_sub (timestamp (last h)) (timestamp (hd h)))
                                          (js_sub (percent (last h)) (percent (hd h)))),
                        completionDate = new_Date (js_add (timestamp (last h))
                          (js_mul (js_sub (Fin 100) (percent (last h)))
                            (msPerPercent (js_sub (timestamp (last h)) (timestamp (hd h)))
                                          (js_sub (percent (last h)) (percent (hd h)))))) \<rparr>)
         \<and> estimate h = estimate [hd h, last h]"
    if "2 \<le> length h"
      and "js_gt (js_sub (percent (last h)) (percent (hd h))) (Fin 0)"
      and "js_gt (js_sub (timestamp (last h)) (timestamp (hd h))) (Fin 0)"
    using that by (simp add: estimate_endpoints js_gt_not_le)
  have example: "estimate [\<lparr> timestamp = Fin (of_int n), percent = Fin 10 \<rparr>,
                   \<lparr> timestamp = Fin (of_int (n + 600000)), percent = Fin 20 \<rparr>] =
           Inr (Some \<lparr> remainingMs = Fin 4800000,
                        completionDate = Date (Fin (of_int (n + 600000 + 4800000))) \<rparr>)
         \<and> msPerPercent (js_sub (Fin (of_int (n + 600000))) (Fin (of_int n)))
                         (js_sub (Fin 20) (Fin 10)) = Fin 60000"
    if lo: "- 8640000000000000 \<le> n" and hi: "n + 5400000 \<le> 8640000000000000"
  proof -
    have td: "js_sub (Fin (of_int (n + 600000))) (Fin (of_int n)) = Fin 600000"
      by (simp add: js_sub_def)
    have eq1: "real_of_int (n + 600000) + 4800000 = real_of_int (n + 600000 + 4800000)"
      by simp
    have w: "fl (real_of_int (n + 600000 + 4800000)) = Fin (real_of_int (n + 600000 + 4800000))"
      by (rule fl_whole) (use lo hi in simp_all)
    have "\<bar>n + 600000 + 4800000\<bar> \<le> 8640000000000000" using lo hi by simp
    then have "real_of_int \<bar>n + 600000 + 4800000\<bar> \<le> real_of_int 8640000000000000"
      by (simp only: of_int_le_iff)
    then have "\<bar>real_of_int (n + 600000 + 4800000)\<bar> \<le> 8640000000000000" by simp
    then have clip: "new_Date (Fin (real_of_int (n + 600000 + 4800000))) =
        Date (Fin (real_of_int (n + 600000 + 4800000)))"
      by (simp only: new_Date_def time_clip.simps trunc_of_int if_True)
    have sum: "new_Date (js_add (Fin (of_int (n + 600000))) (Fin 4800000)) =
        Date (Fin (real_of_int (n + 600000 + 4800000)))"
      unfolding js_add.simps eq1 w clip ..
    show ?thesis by (rule estimate_example [OF td sum])
  qed
  show ?thesis using general example by blast
qed

theorem estimate_two_point_witness:
  "2 \<le> length [\<lparr> timestamp = Fin 0, percent = Fin 10 \<rparr>,
                 \<lparr> timestamp = Fin 300000, percent = Fin 12 \<rparr>,
                 \<lparr> timestamp = Fin 600000, percent = Fin 20 \<rparr>]
   \<and> js_gt (js_sub (Fin 20) (Fin 10)) (Fin 0)
   \<and> js_gt (js_sub (Fin 600000) (Fin 0)) (Fin 0)
   \<and> estimate [\<lparr> timestamp = Fin 0, percent = Fin 10 \<rparr>,
                \<lparr> timestamp = Fin 300000, percent = Fin 12 \<rparr>,
                \<lparr> timestamp = Fin 600000, percent = Fin 20 \<rparr>] =
       Inr (Some \<lparr> remainingMs = Fin 4800000, completionDate = Date (Fin 5400000) \<rparr>)
   \<and> (- 8640000000000000 :: int) \<le> 1764001800000
   \<and> (1764001800000 :: int) + 5400000 \<le> 8640000000000000
   \<and> estimate [\<lparr> timestamp = Fin 1764001800000, percent = Fin 10 \<rparr>,
                \<lparr> timestamp = Fin 1764002400000, percent = Fin 20 \<rparr>] =
       Inr (Some \<lparr> remainingMs = Fin 4800000, completionDate = Date (Fin 1764007200000) \<rparr>)"
  using estimate_two_point [of "[\<lparr> timestamp = Fin 0, percent = Fin 10 \<rparr>,
                 \<lparr> timestamp = Fin 300000, percent = Fin 12 \<rparr>,
                 \<lparr> timestamp = Fin 600000, percent = Fin 20 \<rparr>]" 1764001800000]
  by (simp add: js_sub_def js_gt_def msPerPercent_def new_Date_def trunc_def)

text \<open>
  Claim C1 as stated fails. For the History \<open>[(0, 1), (255000, 12)]\<close> the formula
  \<open>(100 - p1) * (t1 - t0) / (p1 - p0)\<close> is \<open>2040000\<close>, and the program returns
  \<open>2040000 - 2\<^sup>-\<^sup>3\<^sup>2\<close>: the quotient \<open>255000 / 11\<close> is rounded before it is multiplied
  by \<open>88\<close>. Its completion date is \<open>2295000\<close>, which is not \<open>t1\<close> plus the remaining
  duration it returns. For \<open>[(0, 0), (1, 8)]\<close> the remaining duration is \<open>11.5\<close> and the
  completion date is \<open>12\<close>, not \<open>12.5\<close>: a date holds whole milliseconds.
\<close>

theorem estimate_rounding_counterexample:
  "estimate [\<lparr> timestamp = Fin 0, percent = Fin 1 \<rparr>,
             \<lparr> timestamp = Fin 255000, percent = Fin 12 \<rparr>] =
     Inr (Some \<lparr> remainingMs = Fin (2040000 - 1 / 4294967296),
                  completionDate = Date (Fin 2295000) \<rparr>)
   \<and> (100 - 12) * (255000 - 0) / (12 - 1) = (2040000 :: real)
   \<and> Fin (2040000 - 1 / 4294967296) \<noteq> Fin 2040000
   \<and> Fin 2295000 \<noteq> Fin (255000 + (2040000 - 1 / 4294967296))
   \<and> estimate [\<lparr> timestamp = Fin 0, percent = Fin 0 \<rparr>,
               \<lparr> timestamp = Fin 1, percent = Fin 8 \<rparr>] =
       Inr (Some \<lparr> remainingMs = Fin (23 / 2), completionDate = Date (Fin 12) \<rparr>)
   \<and> Fin 12 \<noteq> Fin (1 + 23 / 2)"
proof -
  have first: "estimate [\<lparr> timestamp = Fin 0, percent = Fin 1 \<rparr>,
             \<lparr> timestamp = Fin 255000, percent = Fin 12 \<rparr>] =
     Inr (Some \<lparr> remainingMs = Fin (2040000 - 1 / 4294967296),
                  completionDate = Date (Fin 2295000) \<rparr>)"
    by (rule estimate_steps [where td = "Fin 255000" and pd = "Fin 11"
          and r = "Fin (6372169660974545 / 274877906944)" and rp = "Fin 88"])
       (simp_all add: js_sub_def js_le_def msPerPercent_def fl_eval new_Date_def trunc_def)
  have second: "estimate [\<lparr> timestamp = Fin 0, percent = Fin 0 \<rparr>,
               \<lparr> timestamp = Fin 1, percent = Fin 8 \<rparr>] =
       Inr (Some \<lparr> remainingMs = Fin (23 / 2), completionDate = Date (Fin 12) \<rparr>)"
    by (rule estimate_steps [where td = "Fin 1" and pd = "Fin 8"
          and r = "Fin (1 / 8)" and rp = "Fin 92"])
       (simp_all add: js_sub_def js_le_def msPerPercent_def fl_eval new_Date_def trunc_def)
  show ?thesis using first second by simp
qed

text \<open>
  Claim C3. \<open>estimate\<close> returns \<^verbatim>\<open>null\<close> exactly when the History has fewer than two
  samples, or the percent difference between the last and the first sample is \<^verbatim>\<open><= 0\<close>, or
  their time difference is \<^verbatim>\<open><= 0\<close>; in every other case it returns an estimate; it never
  throws.
\<close>

theorem estimate_none_iff:
  "(estimate h = Inr None) =
     (length h < 2
      \<or> js_le (js_sub (percent (last h)) (percent (hd h))) (Fin 0)
      \<or> js_le (js_sub (timestamp (last h)) (timestamp (hd h))) (Fin 0))
   \<and> (estimate h \<noteq> Inr None \<longrightarrow> (\<exists>e. estimate h = Inr (Some e)))
   \<and> (\<forall>err. estimate h \<noteq> Inl err)"
proof (cases "length h < 2")
  case True
  then show ?thesis by (simp add: estimate_short)
next
  case False
  then have "2 \<le> length h" by simp
  then show ?thesis using False by (simp add: estimate_endpoints)
qed

theorem estimate_none_iff_witness:
  "estimate [\<lparr> timestamp = Fin 0, percent = Fin 10 \<rparr>,
             \<lparr> timestamp = Fin 600000, percent = Fin 20 \<rparr>] \<noteq> Inr None
   \<and> (\<exists>e. estimate [\<lparr> timestamp = Fin 0, percent = Fin 10 \<rparr>,
             \<lparr> timestamp = Fin 600000, percent = Fin 20 \<rparr>] = Inr (Some e))
   \<and> estimate [\<lparr> timestamp = Fin 0, percent = Fin 10 \<rparr>,
             \<lparr> timestamp = Fin 600000, percent = Fin 10 \<rparr>] = Inr None
   \<and> estimate [\<lparr> timestamp = Fin 0, percent = Fin 10 \<rparr>] = Inr None"
  using estimate_none_iff [of "[\<lparr> timestamp = Fin 0, percent = Fin 10 \<rparr>,
             \<lparr> timestamp = Fin 600000, percent = Fin 20 \<rparr>]"]
    estimate_none_iff [of "[\<lparr> timestamp = Fin 0, percent = Fin 10 \<rparr>,
             \<lparr> timestamp = Fin 600000, percent = Fin 10 \<rparr>]"]
    estimate_none_iff [of "[\<lparr> timestamp = Fin 0, percent = Fin 10 \<rparr>]"]
  by (simp add: js_sub_def js_le_def)

section \<open>Recording an observation: proofs\<close>

lemma js_index_last:
  "js_index xs (int (length xs) - 1) = (if xs = [] then None else Some (last xs))"
proof (cases "xs = []")
  case True
  then show ?thesis by (simp add: js_index_def)
next
  case False
  have "nat (int (length xs) - 1) = length xs - 1" by simp
  then show ?thesis using False by (simp add: js_index_def last_conv_nth)
qed

lemma record_observation_cases:
  "record_observation p t (prev, c) =
     (if prev = [] then
        (prev @ [\<lparr> timestamp = t, percent = p \<rparr>], persist c (prev @ [\<lparr> timestamp = t, percent = p \<rparr>]))
      else if js_lt p (percent (last prev)) then
        ([\<lparr> timestamp = t, percent = p \<rparr>], persist c [\<lparr> timestamp = t, percent = p \<rparr>])
      else if strict_eq (percent (last prev)) p then (prev, c)
      else (prev @ [\<lparr> timestamp = t, percent = p \<rparr>], persist c (prev @ [\<lparr> timestamp = t, percent = p \<rparr>])))"
  by (simp add: record_observation_def js_index_last Let_def)

lemma strict_eq_not_lt: "strict_eq a b \<Longrightarrow> \<not> js_lt b a"
  by (cases a; cases b) auto

lemma js_lt_not_strict_eq: "js_lt a b \<Longrightarrow> \<not> strict_eq a b"
  by (cases a; cases b) auto

lemma js_lt_asym: "js_lt a b \<Longrightarrow> \<not> js_lt b a"
  by (cases a; cases b) auto

lemma js_lt_trans: "js_lt a b \<Longrightarrow> js_lt b c \<Longrightarrow> js_lt a c"
  by (cases a; cases b; cases c) auto

lemma js_lt_total: "a \<noteq> NaN \<Longrightarrow> b \<noteq> NaN \<Longrightarrow> \<not> js_lt b a \<Longrightarrow> \<not> strict_eq a b \<Longrightarrow> js_lt a b"
  by (cases a; cases b) auto

lemma js_lt_irrefl: "\<not> js_lt a a"
  by (cases a) auto

text \<open>
  Claim C2. When the History is not empty and the polled percent is strictly less than
  the percent of its last sample, the new History is the single new observation, and that
  one-element History is what is written to the cache under \<^verbatim>\<open>migration_history\<close>.
\<close>

theorem record_reset:
  assumes "prev \<noteq> []" and "js_lt p (percent (last prev))"
  shows "record_observation p t (prev, c) =
           ([\<lparr> timestamp = t, percent = p \<rparr>], persist c [\<lparr> timestamp = t, percent = p \<rparr>])
         \<and> length (fst (record_observation p t (prev, c))) = 1
         \<and> cache_get (snd (record_observation p t (prev, c))) ''migration_history'' =
             Some (JSON_stringify (history_value [\<lparr> timestamp = t, percent = p \<rparr>]))
         \<and> journal (snd (record_observation p t (prev, c))) =
             journal c @ [(''migration_history'',
                           JSON_stringify (history_value [\<lparr> timestamp = t, percent = p \<rparr>]))]"
  using assms
  by (simp add: record_observation_cases persist_def cache_set_def cache_get_def)

theorem record_reset_witness:
  "[\<lparr> timestamp = Fin 1000, percent = Fin 40 \<rparr>, \<lparr> timestamp = Fin 2000, percent = Fin 50 \<rparr>] \<noteq> []
   \<and> js_lt (Fin 3) (percent (last [\<lparr> timestamp = Fin 1000, percent = Fin 40 \<rparr>,
                                    \<lparr> timestamp = Fin 2000, percent = Fin 50 \<rparr>]))
   \<and> fst (record_observation (Fin 3) (Fin 3000)
        ([\<lparr> timestamp = Fin 1000, percent = Fin 40 \<rparr>, \<lparr> timestamp = Fin 2000, percent = Fin 50 \<rparr>],
         empty_cache)) = [\<lparr> timestamp = Fin 3000, percent = Fin 3 \<rparr>]
   \<and> journal (snd (record_observation (Fin 3) (Fin 3000)
        ([\<lparr> timestamp = Fin 1000, percent = Fin 40 \<rparr>, \<lparr> timestamp = Fin 2000, percent = Fin 50 \<rparr>],
         empty_cache))) =
       [(''migration_history'',
         Doc (JArr [JObj [(''timestamp'', JNum (Fin 3000)), (''percent'', JNum (Fin 3))]]))]"
  using record_reset [of "[\<lparr> timestamp = Fin 1000, percent = Fin 40 \<rparr>,
                           \<lparr> timestamp = Fin 2000, percent = Fin 50 \<rparr>]" "Fin 3" "Fin 3000" empty_cache]
  by (simp add: empty_cache_def JSON_stringify_def history_value_def item_value_def persist_def
      cache_set_def)

text \<open>
  Claim C4. When the History is not empty and the polled percent equals the percent of its
  last sample, the History is returned as it was (same length, same last sample, same
  samples) and the cache is not written to: no call of \<^verbatim>\<open>set\<close> is added and the entries are
  as before, whatever the timestamp \<open>t\<close> of the poll is.
\<close>

theorem record_same_percent:
  assumes "prev \<noteq> []" and "strict_eq (percent (last prev)) p"
  shows "record_observation p t (prev, c) = (prev, c)
         \<and> length (fst (record_observation p t (prev, c))) = length prev
         \<and> last (fst (record_observation p t (prev, c))) = last prev
         \<and> journal (snd (record_observation p t (prev, c))) = journal c
         \<and> entries (snd (record_observation p t (prev, c))) = entries c"
  using assms by (simp add: record_observation_cases strict_eq_not_lt)

theorem record_same_percent_witness:
  "[\<lparr> timestamp = Fin 1000, percent = Fin 40 \<rparr>, \<lparr> timestamp = Fin 2000, percent = Fin 50 \<rparr>] \<noteq> []
   \<and> strict_eq (percent (last [\<lparr> timestamp = Fin 1000, percent = Fin 40 \<rparr>,
                                 \<lparr> timestamp = Fin 2000, percent = Fin 50 \<rparr>])) (Fin 50)
   \<and> record_observation (Fin 50) (Fin 9000)
        ([\<lparr> timestamp = Fin 1000, percent = Fin 40 \<rparr>, \<lparr> timestamp = Fin 2000, percent = Fin 50 \<rparr>],
         empty_cache) =
       ([\<lparr> timestamp = Fin 1000, percent = Fin 40 \<rparr>, \<lparr> timestamp = Fin 2000, percent = Fin 50 \<rparr>],
        empty_cache)"
  using record_same_percent [of "[\<lparr> timestamp = Fin 1000, percent = Fin 40 \<rparr>,
                           \<lparr> timestamp = Fin 2000, percent = Fin 50 \<rparr>]" "Fin 50" "Fin 9000" empty_cache]
  by simp

lemma record_all_snoc:
  "record_all (polls @ [q]) st = record_observation (fst q) (snd q) (record_all polls st)"
  by (simp add: record_all_def)

lemma record_all_Nil: "record_all [] st = st"
  by (simp add: record_all_def)

lemma invariant_step:
  assumes "history_invariant prev"
  shows "history_invariant (fst (record_observation p t (prev, c)))"
  using assms
  by (simp add: record_observation_cases history_invariant_def successively_append_iff
      percent_step_ok_def)

lemma strict_step:
  assumes "strictly_increasing prev" and "NaN \<notin> percent ` set prev" and "p \<noteq> NaN"
  shows "strictly_increasing (fst (record_observation p t (prev, c)))
         \<and> NaN \<notin> percent ` set (fst (record_observation p t (prev, c)))"
proof (cases "prev = []")
  case True
  then show ?thesis using assms(3) by (simp add: record_observation_cases strictly_increasing_def)
next
  case False
  show ?thesis
  proof (cases "js_lt p (percent (last prev))")
    case True
    then show ?thesis
      using False assms(3) by (simp add: record_observation_cases strictly_increasing_def)
  next
    case nlt: False
    show ?thesis
    proof (cases "strict_eq (percent (last prev)) p")
      case True
      then show ?thesis using False nlt assms(1,2) by (simp add: record_observation_cases)
    next
      case neq: False
      have "last prev \<in> set prev" using False by simp
      then have "percent (last prev) \<noteq> NaN" using assms(2) by force
      then have "js_lt (percent (last prev)) p"
        using nlt neq assms(3) by (simp add: js_lt_total)
      then have "strictly_increasing (prev @ [\<lparr> timestamp = t, percent = p \<rparr>])"
        using assms(1) False by (simp add: strictly_increasing_def successively_append_iff)
      moreover have "NaN \<notin> percent ` set (prev @ [\<lparr> timestamp = t, percent = p \<rparr>])"
        using assms(2,3) by simp
      ultimately show ?thesis
        using False nlt neq by (simp add: record_observation_cases)
    qed
  qed
qed

lemma record_all_invariant: "history_invariant (fst (record_all polls ([], c)))"
proof (induction polls rule: rev_induct)
  case Nil
  then show ?case by (simp add: record_all_Nil history_invariant_def)
next
  case (snoc q polls)
  have "history_invariant (fst (record_observation (fst q) (snd q)
          (fst (record_all polls ([], c)), snd (record_all polls ([], c)))))"
    using snoc by (rule invariant_step)
  then show ?case by (simp add: record_all_snoc)
qed

lemma record_all_strict:
  assumes "NaN \<notin> fst ` set polls"
  shows "strictly_increasing (fst (record_all polls ([], c)))
         \<and> NaN \<notin> percent ` set (fst (record_all polls ([], c)))"
  using assms
proof (induction polls rule: rev_induct)
  case Nil
  then show ?case by (simp add: record_all_Nil strictly_increasing_def)
next
  case (snoc q polls)
  then have ih: "strictly_increasing (fst (record_all polls ([], c)))"
       "NaN \<notin> percent ` set (fst (record_all polls ([], c)))" and q: "fst q \<noteq> NaN"
    by auto
  have "strictly_increasing (fst (record_observation (fst q) (snd q)
          (fst (record_all polls ([], c)), snd (record_all polls ([], c)))))
        \<and> NaN \<notin> percent ` set (fst (record_observation (fst q) (snd q)
          (fst (record_all polls ([], c)), snd (record_all polls ([], c)))))"
    using ih q by (rule strict_step)
  then show ?case by (simp add: record_all_snoc)
qed

text \<open>
  Claim C5. Recording an observation keeps the invariant of a History, for every
  observation, and every History reached from the empty one by recording polls has it:
  across consecutive samples the percent does not decrease and is not repeated. When no
  percent is \<^verbatim>\<open>NaN\<close>, which a percent decoded from JSON never is, this is the same as the
  percent being strictly increasing across consecutive samples, and recording keeps that
  too.
\<close>

theorem record_keeps_invariant:
  "(history_invariant prev \<longrightarrow> history_invariant (fst (record_observation p t (prev, c))))
   \<and> history_invariant (fst (record_all polls ([], c)))
   \<and> (strictly_increasing prev \<and> NaN \<notin> percent ` set prev \<and> p \<noteq> NaN
        \<longrightarrow> strictly_increasing (fst (record_observation p t (prev, c))))
   \<and> (NaN \<notin> fst ` set polls \<longrightarrow> strictly_increasing (fst (record_all polls ([], c))))"
  using invariant_step [of prev p t c] record_all_invariant [of polls c]
    strict_step [of prev p t c] record_all_strict [of polls c]
  by simp

theorem record_keeps_invariant_witness:
  "history_invariant [\<lparr> timestamp = Fin 1000, percent = Fin 40 \<rparr>]
   \<and> history_invariant (fst (record_observation (Fin 50) (Fin 2000)
        ([\<lparr> timestamp = Fin 1000, percent = Fin 40 \<rparr>], empty_cache)))
   \<and> strictly_increasing [\<lparr> timestamp = Fin 1000, percent = Fin 40 \<rparr>]
   \<and> NaN \<notin> percent ` set [\<lparr> timestamp = Fin 1000, percent = Fin 40 \<rparr>]
   \<and> Fin 50 \<noteq> NaN
   \<and> strictly_increasing (fst (record_observation (Fin 50) (Fin 2000)
        ([\<lparr> timestamp = Fin 1000, percent = Fin 40 \<rparr>], empty_cache)))
   \<and> NaN \<notin> fst ` set [(Fin 40, Fin 1000), (Fin 50, Fin 2000), (Fin 50, Fin 3000), (Fin 7, Fin 4000)]
   \<and> strictly_increasing (fst (record_all
        [(Fin 40, Fin 1000), (Fin 50, Fin 2000), (Fin 50, Fin 3000), (Fin 7, Fin 4000)]
        ([], empty_cache)))"
  using record_keeps_invariant [of "[\<lparr> timestamp = Fin 1000, percent = Fin 40 \<rparr>]"
      "Fin 50" "Fin 2000" empty_cache
      "[(Fin 40, Fin 1000), (Fin 50, Fin 2000), (Fin 50, Fin 3000), (Fin 7, Fin 4000)]"]
  by (simp add: history_invariant_def strictly_increasing_def percent_step_ok_def)

lemma sorted_wrt_js_lt_distinct: "sorted_wrt js_lt xs \<Longrightarrow> distinct xs"
  by (induction xs) (auto simp add: js_lt_irrefl)

lemma record_all_increasing:
  assumes "sorted_wrt js_lt (map fst polls)"
  shows "fst (record_all polls ([], c)) = map (\<lambda>q. \<lparr> timestamp = snd q, percent = fst q \<rparr>) polls"
  using assms
proof (induction polls rule: rev_induct)
  case Nil
  then show ?case by (simp add: record_all_Nil)
next
  case (snoc q polls)
  then have ih: "fst (record_all polls ([], c)) =
      map (\<lambda>q. \<lparr> timestamp = snd q, percent = fst q \<rparr>) polls"
    and below: "\<forall>x \<in> set polls. js_lt (fst x) (fst q)"
    by (auto simp add: sorted_wrt_append)
  have step: "fst (record_observation (fst q) (snd q)
                 (map (\<lambda>q. \<lparr> timestamp = snd q, percent = fst q \<rparr>) polls, c')) =
         map (\<lambda>q. \<lparr> timestamp = snd q, percent = fst q \<rparr>) (polls @ [q])" for c'
  proof (cases "polls = []")
    case True
    then show ?thesis by (simp add: record_observation_cases)
  next
    case False
    then have "js_lt (fst (last polls)) (fst q)" using below by simp
    then show ?thesis
      using False
      by (simp add: record_observation_cases last_map js_lt_asym js_lt_not_strict_eq)
  qed
  obtain h c' where st: "record_all polls ([], c) = (h, c')"
    by (cases "record_all polls ([], c)")
  then have "h = map (\<lambda>q. \<lparr> timestamp = snd q, percent = fst q \<rparr>) polls"
    using ih by simp
  then show ?case using step [of c'] st by (simp add: record_all_snoc)
qed

lemma js_le_not_lt: "js_le a b \<Longrightarrow> \<not> js_lt b a"
  by (cases a; cases b) (auto simp add: js_le_def)

lemma strict_eq_eq: "strict_eq a b \<Longrightarrow> a = b"
  by (cases a; cases b) auto

lemma record_all_percents:
  assumes "successively js_le (map fst polls)"
  shows "set (map percent (fst (record_all polls ([], c)))) = set (map fst polls)
         \<and> (polls \<noteq> [] \<longrightarrow> fst (record_all polls ([], c)) \<noteq> []
               \<and> percent (last (fst (record_all polls ([], c)))) = fst (last polls))"
  using assms
proof (induction polls rule: rev_induct)
  case Nil
  then show ?case by (simp add: record_all_Nil)
next
  case (snoc q polls)
  obtain h c' where st: "record_all polls ([], c) = (h, c')" by (cases "record_all polls ([], c)")
  from snoc.prems have sub: "successively js_le (map fst polls)"
    by (simp add: successively_append_iff)
  have link: "js_le (fst (last polls)) (fst q)" if "polls \<noteq> []"
    using snoc.prems that by (simp add: successively_append_iff last_map)
  from snoc.IH [OF sub] st have ih: "set (map percent h) = set (map fst polls)"
    and ihl: "polls \<noteq> [] \<longrightarrow> h \<noteq> [] \<and> percent (last h) = fst (last polls)" by auto
  show ?case
  proof (cases "polls = []")
    case True
    then show ?thesis by (simp add: record_all_def record_observation_cases)
  next
    case False
    then have ne: "h \<noteq> []" and l: "percent (last h) = fst (last polls)" using ihl by auto
    from False link have le: "js_le (percent (last h)) (fst q)" using l by simp
    then have nlt: "\<not> js_lt (fst q) (percent (last h))" by (rule js_le_not_lt)
    have res: "record_all (polls @ [q]) ([], c) = record_observation (fst q) (snd q) (h, c')"
      using st by (simp add: record_all_snoc)
    show ?thesis
    proof (cases "strict_eq (percent (last h)) (fst q)")
      case True
      then have eq: "percent (last h) = fst q" by (rule strict_eq_eq)
      have "last h \<in> set h" using ne by simp
      then have "fst q \<in> set (map percent h)" using eq by force
      then have "fst q \<in> set (map fst polls)" using ih by simp
      then have "set (map fst (polls @ [q])) = set (map percent h)" using ih by auto
      moreover have "record_all (polls @ [q]) ([], c) = (h, c')"
        using res True ne nlt by (simp add: record_observation_cases)
      ultimately show ?thesis using ne eq by simp
    next
      case neq: False
      have "record_all (polls @ [q]) ([], c) =
          (h @ [\<lparr> timestamp = snd q, percent = fst q \<rparr>],
           persist c' (h @ [\<lparr> timestamp = snd q, percent = fst q \<rparr>]))"
        using res neq ne nlt by (simp add: record_observation_cases)
      then show ?thesis using ih by simp
    qed
  qed
qed

lemma strictly_increasing_distinct:
  assumes "strictly_increasing h"
  shows "distinct (map percent h)"
proof -
  have tr: "transp (\<lambda>a b. js_lt (percent a) (percent b))"
    by (rule transpI) (rule js_lt_trans)
  have "sorted_wrt (\<lambda>a b. js_lt (percent a) (percent b)) h"
    using assms successively_conv_sorted_wrt [OF tr, of h] by (simp add: strictly_increasing_def)
  then have "sorted_wrt js_lt (map percent h)" by (simp add: sorted_wrt_map)
  then show ?thesis by (rule sorted_wrt_js_lt_distinct)
qed

text \<open>
  Claim C6. After a sequence of polls with strictly increasing percents, recorded from the
  empty History, the History has as many samples as the sequence has distinct percents,
  which is the number of polls, whatever the timestamps are. When the percents are only
  non-decreasing, consecutive polls with the same percent add no sample, and the length is
  still the number of distinct percents.
\<close>

theorem record_all_length:
  "(sorted_wrt js_lt (map fst polls)
      \<longrightarrow> length (fst (record_all polls ([], c))) = card (set (map fst polls))
          \<and> length (fst (record_all polls ([], c))) = length polls)
   \<and> (successively js_le (map fst polls) \<and> NaN \<notin> fst ` set polls
      \<longrightarrow> length (fst (record_all polls ([], c))) = card (set (map fst polls)))"
proof -
  have a: "length (fst (record_all polls ([], c))) = card (set (map fst polls))
          \<and> length (fst (record_all polls ([], c))) = length polls"
    if "sorted_wrt js_lt (map fst polls)"
  proof -
    have "distinct (map fst polls)" using that by (rule sorted_wrt_js_lt_distinct)
    then have "card (set (map fst polls)) = length polls"
      using distinct_card by fastforce
    then show ?thesis using that by (simp add: record_all_increasing)
  qed
  have b: "length (fst (record_all polls ([], c))) = card (set (map fst polls))"
    if "successively js_le (map fst polls)" and "NaN \<notin> fst ` set polls"
  proof -
    have "distinct (map percent (fst (record_all polls ([], c))))"
      using that(2) record_all_strict strictly_increasing_distinct by blast
    then have "card (set (map percent (fst (record_all polls ([], c))))) =
        length (map percent (fst (record_all polls ([], c))))"
      by (rule distinct_card)
    then show ?thesis using record_all_percents [OF that(1), of c] by simp
  qed
  show ?thesis using a b by blast
qed



theorem record_all_length_witness:
  "sorted_wrt js_lt (map fst [(Fin 10, Fin 1000), (Fin 20, Fin 2000), (Fin 35, Fin 3000)])
   \<and> length (fst (record_all [(Fin 10, Fin 1000), (Fin 20, Fin 2000), (Fin 35, Fin 3000)]
                  ([], empty_cache))) = 3
   \<and> card (set (map fst [(Fin 10, Fin 1000), (Fin 20, Fin 2000), (Fin 35, Fin 3000)])) = 3
   \<and> successively js_le (map fst [(Fin 10, Fin 1000), (Fin 10, Fin 2000), (Fin 35, Fin 3000)])
   \<and> NaN \<notin> fst ` set [(Fin 10, Fin 1000), (Fin 10, Fin 2000), (Fin 35, Fin 3000)]
   \<and> length (fst (record_all [(Fin 10, Fin 1000), (Fin 10, Fin 2000), (Fin 35, Fin 3000)]
                  ([], empty_cache))) = 2
   \<and> card (set (map fst [(Fin 10, Fin 1000), (Fin 10, Fin 2000), (Fin 35, Fin 3000)])) = 2"
  using record_all_length [of "[(Fin 10, Fin 1000), (Fin 20, Fin 2000), (Fin 35, Fin 3000)]" empty_cache]
    record_all_length [of "[(Fin 10, Fin 1000), (Fin 10, Fin 2000), (Fin 35, Fin 3000)]" empty_cache]
  by (simp add: js_le_def)

section \<open>Persisting and loading: proofs\<close>

lemma load_persist: "load (persist c h) = Inr (json_form (history_value h), [])"
  by (simp add: load_def persist_def cache_get_def cache_set_def JSON_stringify_def
      try_catch_def bind_def)

lemma json_form_item:
  "(json_form (item_value x) = item_value x) = (is_finite (timestamp x) \<and> is_finite (percent x))"
  by (simp add: item_value_def)

lemma json_form_history:
  "(json_form (history_value h) = history_value h) =
     list_all (\<lambda>x. is_finite (timestamp x) \<and> is_finite (percent x)) h"
  by (induction h) (simp_all add: history_value_def json_form_item)

lemma is_History_history_value: "is_History (history_value h)"
  by (induction h) (simp_all add: history_value_def item_value_def)

text \<open>
  Claim C7, amended. Persisting a History and loading it back gives the same sequence of
  observations exactly when every timestamp and every percent in it is finite: for such a
  History the load after the persist is the identity, and for no other History is it.
\<close>

theorem persist_load_roundtrip:
  "(list_all (\<lambda>x. is_finite (timestamp x) \<and> is_finite (percent x)) h
      \<longrightarrow> load (persist c h) = Inr (history_value h, []))
   \<and> (load (persist c h) = Inr (history_value h, [])
      \<longrightarrow> list_all (\<lambda>x. is_finite (timestamp x) \<and> is_finite (percent x)) h)"
  using json_form_history [of h] by (simp add: load_persist)

theorem persist_load_roundtrip_witness:
  "list_all (\<lambda>x. is_finite (timestamp x) \<and> is_finite (percent x))
     [\<lparr> timestamp = Fin 1000, percent = Fin 40 \<rparr>, \<lparr> timestamp = Fin 2000, percent = Fin 50 \<rparr>]
   \<and> load (persist empty_cache
        [\<lparr> timestamp = Fin 1000, percent = Fin 40 \<rparr>, \<lparr> timestamp = Fin 2000, percent = Fin 50 \<rparr>]) =
       Inr (JArr [JObj [(''timestamp'', JNum (Fin 1000)), (''percent'', JNum (Fin 40))],
                  JObj [(''timestamp'', JNum (Fin 2000)), (''percent'', JNum (Fin 50))]], [])"
  using persist_load_roundtrip [of
      "[\<lparr> timestamp = Fin 1000, percent = Fin 40 \<rparr>, \<lparr> timestamp = Fin 2000, percent = Fin 50 \<rparr>]"
      empty_cache]
  by (simp add: history_value_def item_value_def)

text \<open>
  Claim C7 as stated fails. A poll whose \<^verbatim>\<open>last_updated\<close> is not a date has the timestamp
  \<^verbatim>\<open>NaN\<close>. Recording it from the empty History persists the one-element History with that
  timestamp, the serialisation writes the timestamp as \<^verbatim>\<open>null\<close>, and loading gives an
  object whose timestamp is \<^verbatim>\<open>null\<close>, which is not the observation that was persisted.
\<close>

theorem persist_load_NaN_counterexample:
  "record_observation (Fin 5) NaN ([], empty_cache) =
     ([\<lparr> timestamp = NaN, percent = Fin 5 \<rparr>],
      persist empty_cache [\<lparr> timestamp = NaN, percent = Fin 5 \<rparr>])
   \<and> load (persist empty_cache [\<lparr> timestamp = NaN, percent = Fin 5 \<rparr>]) =
       Inr (JArr [JObj [(''timestamp'', JNull), (''percent'', JNum (Fin 5))]], [])
   \<and> history_value [\<lparr> timestamp = NaN, percent = Fin 5 \<rparr>] =
       JArr [JObj [(''timestamp'', JNum NaN), (''percent'', JNum (Fin 5))]]
   \<and> load (persist empty_cache [\<lparr> timestamp = NaN, percent = Fin 5 \<rparr>]) \<noteq>
       Inr (history_value [\<lparr> timestamp = NaN, percent = Fin 5 \<rparr>], [])"
  by (simp add: record_observation_cases load_persist history_value_def item_value_def)

text \<open>
  Claim C8, amended. \<open>load\<close> never throws. When the key is missing or holds the empty
  string it returns the empty History; when the text does not parse it returns the empty
  History and logs the failure; when the text parses it returns the parsed value as it
  is, without checking it, and that value is the History that was persisted when the text
  is the serialisation of a History whose numbers are all finite.
\<close>

theorem load_never_raises:
  "(cache_get c ''migration_history'' = None \<or> cache_get c ''migration_history'' = Some Empty
      \<longrightarrow> load c = Inr (history_value [], []))
   \<and> (cache_get c ''migration_history'' = Some Malformed
      \<longrightarrow> load c = Inr (history_value [], [''Failed to parse history'']))
   \<and> (cache_get c ''migration_history'' = Some (Doc v) \<longrightarrow> load c = Inr (v, []))
   \<and> (cache_get c ''migration_history'' = Some (JSON_stringify (history_value h))
        \<and> list_all (\<lambda>x. is_finite (timestamp x) \<and> is_finite (percent x)) h
      \<longrightarrow> load c = Inr (history_value h, []) \<and> is_History (history_value h))
   \<and> (\<forall>e. load c \<noteq> Inl e)"
proof -
  have a: "load c = Inr (history_value [], [])"
    if "cache_get c ''migration_history'' = None \<or> cache_get c ''migration_history'' = Some Empty"
    using that by (auto simp add: load_def history_value_def)
  have b: "load c = Inr (history_value [], [''Failed to parse history''])"
    if "cache_get c ''migration_history'' = Some Malformed"
    using that by (simp add: load_def history_value_def try_catch_def bind_def)
  have d: "load c = Inr (v, [])" if "cache_get c ''migration_history'' = Some (Doc v)" for v
    using that by (simp add: load_def try_catch_def bind_def)
  have e: "load c = Inr (history_value h, []) \<and> is_History (history_value h)"
    if "cache_get c ''migration_history'' = Some (JSON_stringify (history_value h))"
      and "list_all (\<lambda>x. is_finite (timestamp x) \<and> is_finite (percent x)) h"
    using that d [of "json_form (history_value h)"] json_form_history [of h]
    by (simp add: JSON_stringify_def is_History_history_value)
  have f: "load c \<noteq> Inl err" for err
  proof (cases "cache_get c ''migration_history''")
    case None
    then show ?thesis using a by simp
  next
    case (Some cached)
    then show ?thesis using a b d by (cases cached) auto
  qed
  show ?thesis using a b d e f by blast
qed

theorem load_never_raises_witness:
  "cache_get empty_cache ''migration_history'' = None
   \<and> load empty_cache = Inr (JArr [], [])
   \<and> cache_get (cache_set empty_cache ''migration_history'' Malformed) ''migration_history'' =
       Some Malformed
   \<and> load (cache_set empty_cache ''migration_history'' Malformed) =
       Inr (JArr [], [''Failed to parse history''])
   \<and> cache_get (cache_set empty_cache ''migration_history'' (Doc (JArr []))) ''migration_history'' =
       Some (Doc (JArr []))
   \<and> load (cache_set empty_cache ''migration_history'' (Doc (JArr []))) = Inr (JArr [], [])
   \<and> cache_get (persist empty_cache [\<lparr> timestamp = Fin 1000, percent = Fin 40 \<rparr>])
        ''migration_history'' =
       Some (JSON_stringify (history_value [\<lparr> timestamp = Fin 1000, percent = Fin 40 \<rparr>]))
   \<and> list_all (\<lambda>x. is_finite (timestamp x) \<and> is_finite (percent x))
        [\<lparr> timestamp = Fin 1000, percent = Fin 40 \<rparr>]
   \<and> load (persist empty_cache [\<lparr> timestamp = Fin 1000, percent = Fin 40 \<rparr>]) =
       Inr (JArr [JObj [(''timestamp'', JNum (Fin 1000)), (''percent'', JNum (Fin 40))]], [])"
  using load_never_raises [of empty_cache]
    load_never_raises [of "cache_set empty_cache ''migration_history'' Malformed"]
    load_never_raises [of "cache_set empty_cache ''migration_history'' (Doc (JArr []))" "JArr []"]
    load_never_raises [of "persist empty_cache [\<lparr> timestamp = Fin 1000, percent = Fin 40 \<rparr>]"
      _ "[\<lparr> timestamp = Fin 1000, percent = Fin 40 \<rparr>]"]
  by (simp add: empty_cache_def cache_get_def cache_set_def persist_def history_value_def
      item_value_def)

text \<open>
  Claim C8 as stated fails in its first part, that \<open>load\<close> returns a History for every
  persisted state. The text \<^verbatim>\<open>null\<close> parses, and \<open>load\<close> returns \<^verbatim>\<open>null\<close>, which is not an
  array. The text the program itself writes after a poll with an unreadable date parses
  to an array of one object whose timestamp is \<^verbatim>\<open>null\<close>, not a number.
\<close>

theorem load_unchecked_counterexample:
  "load (cache_set empty_cache ''migration_history'' (Doc JNull)) = Inr (JNull, [])
   \<and> \<not> is_History JNull
   \<and> snd (record_observation (Fin 5) NaN ([], empty_cache)) =
       cache_set empty_cache ''migration_history''
         (Doc (JArr [JObj [(''timestamp'', JNull), (''percent'', JNum (Fin 5))]]))
   \<and> load (snd (record_observation (Fin 5) NaN ([], empty_cache))) =
       Inr (JArr [JObj [(''timestamp'', JNull), (''percent'', JNum (Fin 5))]], [])
   \<and> \<not> is_History (JArr [JObj [(''timestamp'', JNull), (''percent'', JNum (Fin 5))]])"
  by (simp add: record_observation_cases load_persist persist_def JSON_stringify_def
      history_value_def item_value_def load_def cache_get_def cache_set_def try_catch_def bind_def)

section \<open>Formatting a duration: proofs\<close>

lemma is_doubleD:
  assumes "is_double s"
  shows "rounded s = s" and "\<bar>s\<bar> < 2 ^ 1024"
proof -
  have f: "fl s = Fin s" using assms by (simp add: is_double_def)
  have n: "\<not> 2 ^ 1024 \<le> \<bar>rounded s\<bar>"
  proof
    assume "2 ^ 1024 \<le> \<bar>rounded s\<bar>"
    then have "fl s = NegInf \<or> fl s = PosInf" by (simp add: fl_def)
    then show False using f by auto
  qed
  then have "fl s = Fin (rounded s)" by (simp add: fl_def)
  then show "rounded s = s" using f by simp
  then show "\<bar>s\<bar> < 2 ^ 1024" using n by simp
qed

lemma fl_below_one:
  assumes "0 \<le> x" and "x < 1 - 1 / 2 ^ 54"
  shows "\<exists>y. fl x = Fin y \<and> 0 \<le> y \<and> y < 1"
proof (cases "x < 1 / 2")
  case True
  then have "x < 2 powi (- 1)" by (simp add: power_int_minus_divide)
  then obtain y where "fl x = Fin y" "0 \<le> y" "y \<le> 2 powi (- 1)"
    using fl_bounded [OF assms(1), of "- 1"] by auto
  then show ?thesis by (auto simp add: power_int_minus_divide)
next
  case False
  then have lo: "1 / 2 \<le> x" by simp
  have hi: "x < 1" using assms(2) by (simp add: field_simps) 
  have "expo x = - 1"
    by (rule expo_unique) (use lo hi assms(1) in \<open>simp_all add: power_int_minus_divide\<close>)
  then have q: "quantum x = 1 / 2 ^ 53" by (simp add: quantum_def power_int_minus_divide)
  have "x * 2 ^ 53 < (1 - 1 / 2 ^ 54) * 2 ^ 53" using assms(2) by simp
  also have "\<dots> = of_int (2 ^ 53 - 1) + 1 / 2" by simp
  finally have "x / quantum x < of_int (2 ^ 53 - 1) + 1 / 2" by (simp add: q)
  then have "round_even (x / quantum x) \<le> 2 ^ 53 - 1" by (rule round_even_below_half)
  then have "(of_int (round_even (x / quantum x)) :: real) \<le> of_int (2 ^ 53 - 1)"
    by (simp only: of_int_le_iff)
  then have "rounded x \<le> of_int (2 ^ 53 - 1) / 2 ^ 53"
    by (simp add: rounded_def q divide_right_mono)
  also have "\<dots> < 1" by simp
  finally have r1: "rounded x < 1" .
  have r0: "0 \<le> rounded x" using assms(1) by (rule rounded_nonneg)
  have "\<bar>rounded x\<bar> < 2 ^ 1024" using r0 r1 by simp
  then have "fl x = Fin (rounded x)" by (simp add: fl_def)
  then show ?thesis using r0 r1 by simp
qed

lemma double_below_60000:
  assumes "is_double s" and "0 \<le> s" and "s < 60000"
  shows "s / 60000 < 1 - 1 / 2 ^ 54"
proof (cases "s < 32768")
  case True
  then have "s / 60000 < 32768 / 60000" by simp
  also have "\<dots> < (1 - 1 / 2 ^ 54 :: real)" by simp
  finally show ?thesis .
next
  case False
  then have lo: "32768 \<le> s" by simp
  have "expo s = 15"
    by (rule expo_unique) (use lo assms(3) in simp_all)
  then have q: "quantum s = 1 / 2 ^ 37" by (simp add: quantum_def power_int_minus_divide)
  define j where "j = round_even (s / quantum s)"
  have s: "s = of_int j / 2 ^ 37"
    using is_doubleD(1) [OF assms(1)] by (simp add: rounded_def q j_def)
  have "real_of_int j < 60000 * 2 ^ 37" using assms(3) s by (simp add: field_simps)
  also have "\<dots> = real_of_int (60000 * 2 ^ 37)" by simp
  finally have "j < 60000 * 2 ^ 37" by (simp only: of_int_less_iff)
  then have "j \<le> 60000 * 2 ^ 37 - 1" by simp
  then have "real_of_int j \<le> real_of_int (60000 * 2 ^ 37 - 1)" by (simp only: of_int_le_iff)
  then have "s \<le> real_of_int (60000 * 2 ^ 37 - 1) / 2 ^ 37"
    using s by (simp add: divide_right_mono)
  then have "s / 60000 \<le> real_of_int (60000 * 2 ^ 37 - 1) / 2 ^ 37 / 60000"
    by (simp add: divide_right_mono)
  also have "\<dots> < (1 - 1 / 2 ^ 54 :: real)" by simp
  finally show ?thesis .
qed

lemma zero_component:
  assumes "fl x = Fin y" and "0 \<le> y" and "y < 1" and "1 < k"
  shows "Math_floor (js_mod (fl x) (Fin k)) = Fin 0" and "Math_floor (fl x) = Fin 0"
proof -
  have "0 \<le> y / k" "y / k < 1" using assms by (simp_all add: field_simps)
  then have "trunc (y / k) = 0" by (simp add: trunc_def floor_eq_iff)
  then show "Math_floor (js_mod (fl x) (Fin k)) = Fin 0"
    using assms by (simp add: floor_eq_iff)
  show "Math_floor (fl x) = Fin 0" using assms by (simp add: floor_eq_iff)
qed

lemma formatDuration_small:
  assumes "is_double s" and "0 \<le> s" and "s < 60000"
  shows "formatDuration sci (Fin s) = ''< 1m''"
proof -
  have a: "s / 60000 < 1 - 1 / 2 ^ 54" using assms by (rule double_below_60000)
  have "s / 3600000 \<le> s / 60000" using assms(2) by (simp add: field_simps)
  then have b: "s / 3600000 < 1 - 1 / 2 ^ 54" using a by linarith
  have "s / 86400000 \<le> s / 60000" using assms(2) by (simp add: field_simps)
  then have c: "s / 86400000 < 1 - 1 / 2 ^ 54" using a by linarith
  obtain y1 where y1: "fl (s / 60000) = Fin y1" "0 \<le> y1" "y1 < 1"
    using fl_below_one [OF _ a] assms(2) by auto
  obtain y2 where y2: "fl (s / 3600000) = Fin y2" "0 \<le> y2" "y2 < 1"
    using fl_below_one [OF _ b] assms(2) by auto
  obtain y3 where y3: "fl (s / 86400000) = Fin y3" "0 \<le> y3" "y3 < 1"
    using fl_below_one [OF _ c] assms(2) by auto
  have m: "minutes_of (Fin s) = Fin 0"
    using zero_component(1) [OF y1, of 60] by (simp add: minutes_of_def)
  have h: "hours_of (Fin s) = Fin 0"
    using zero_component(1) [OF y2, of 24] by (simp add: hours_of_def)
  have d: "days_of (Fin s) = Fin 0"
    using zero_component(2) [OF y3, of 2] by (simp add: days_of_def)
  show ?thesis using assms(2) by (simp add: formatDuration_def m h d js_gt_def)
qed

lemma floor_js_mod:
  fixes q :: real and k :: int
  assumes "0 \<le> q" and "0 < k"
  shows "\<lfloor>q - of_int k * of_int (trunc (q / of_int k))\<rfloor> = \<lfloor>q\<rfloor> mod k"
proof -
  have "0 \<le> q / of_int k" using assms by simp
  then have "trunc (q / of_int k) = \<lfloor>q / of_int k\<rfloor>" by (simp add: trunc_def)
  also have "\<dots> = \<lfloor>q\<rfloor> div k" using assms(2) by (simp add: floor_divide_real_eq_div)
  finally have t: "trunc (q / of_int k) = \<lfloor>q\<rfloor> div k" .
  have "q - of_int k * of_int (\<lfloor>q\<rfloor> div k) = q - of_int (k * (\<lfloor>q\<rfloor> div k))" by simp
  then have "\<lfloor>q - of_int k * of_int (\<lfloor>q\<rfloor> div k)\<rfloor> = \<lfloor>q\<rfloor> - k * (\<lfloor>q\<rfloor> div k)"
    by (simp only: floor_diff_of_int)
  also have "\<dots> = \<lfloor>q\<rfloor> mod k" by (simp add: minus_mult_div_eq_mod)
  finally show ?thesis using t by simp
qed

lemma component_of_quotient:
  fixes k :: int
  assumes "fl x = Fin y" and "0 \<le> y" and "0 < k"
  shows "Math_floor (js_mod (fl x) (Fin (of_int k))) = Fin (of_int (\<lfloor>y\<rfloor> mod k))"
    and "Math_floor (fl x) = Fin (of_int \<lfloor>y\<rfloor>)"
  using assms floor_js_mod [of y k] by simp_all

lemma fl_quotient:
  assumes "is_double s" and "0 \<le> s" and "2 \<le> c"
  shows "\<exists>y. fl (s / c) = Fin y \<and> 0 \<le> y"
proof -
  have "s < 2 ^ 1024" using is_doubleD(2) [OF assms(1)] by simp
  have "s / c \<le> s / 2" by (rule divide_left_mono) (use assms(2,3) in simp_all)
  also have "\<dots> < 2 ^ 1024 / 2" using \<open>s < 2 ^ 1024\<close> by simp
  also have "\<dots> = (2::real) powi 1023" by simp
  finally have "s / c < 2 powi 1023" .
  moreover have "0 \<le> s / c" using assms(2,3) by simp
  ultimately show ?thesis using fl_bounded [of "s / c" 1023] by auto
qed

lemma components_whole:
  assumes "is_double s" and "0 \<le> s"
  shows "\<exists>d h m. days_of (Fin s) = whole d \<and> hours_of (Fin s) = whole h
           \<and> minutes_of (Fin s) = whole m"
proof -
  obtain y1 where y1: "fl (s / 60000) = Fin y1" "0 \<le> y1"
    using fl_quotient [OF assms, of 60000] by auto
  obtain y2 where y2: "fl (s / 3600000) = Fin y2" "0 \<le> y2"
    using fl_quotient [OF assms, of 3600000] by auto
  obtain y3 where y3: "fl (s / 86400000) = Fin y3" "0 \<le> y3"
    using fl_quotient [OF assms, of 86400000] by auto
  have m: "minutes_of (Fin s) = Fin (of_int (\<lfloor>y1\<rfloor> mod 60))"
    using component_of_quotient(1) [OF y1, of 60] by (simp add: minutes_of_def)
  have h: "hours_of (Fin s) = Fin (of_int (\<lfloor>y2\<rfloor> mod 24))"
    using component_of_quotient(1) [OF y2, of 24] by (simp add: hours_of_def)
  have d: "days_of (Fin s) = Fin (of_int \<lfloor>y3\<rfloor>)"
    using component_of_quotient(2) [OF y3, of 1] by (simp add: days_of_def)
  have "minutes_of (Fin s) = whole (nat (\<lfloor>y1\<rfloor> mod 60))" by (simp add: m whole_def)
  moreover have "hours_of (Fin s) = whole (nat (\<lfloor>y2\<rfloor> mod 24))" by (simp add: h whole_def)
  moreover have "days_of (Fin s) = whole (nat \<lfloor>y3\<rfloor>)" using y3(2) by (simp add: d whole_def)
  ultimately show ?thesis by blast
qed

lemma part_if:
  "(if js_gt (whole n) (Fin 0) then [to_string sci (whole n) @ u] else []) =
     map (\<lambda>c. to_string sci (fst c) @ snd c) (filter (\<lambda>c. fst c \<noteq> Fin 0) [(whole n, u)])"
  by (simp add: js_gt_def whole_def)

lemma formatDuration_components:
  assumes "\<not> js_lt ms (Fin 0)"
    and "days_of ms = whole d" and "hours_of ms = whole h" and "minutes_of ms = whole m"
  shows "formatDuration sci ms =
           duration_text sci [(days_of ms, ''d''), (hours_of ms, ''h''), (minutes_of ms, ''m'')]"
proof -
  have "formatDuration sci ms =
     (let parts = (if js_gt (whole d) (Fin 0) then [to_string sci (whole d) @ ''d''] else [])
        @ (if js_gt (whole h) (Fin 0) then [to_string sci (whole h) @ ''h''] else [])
        @ (if js_gt (whole m) (Fin 0) then [to_string sci (whole m) @ ''m''] else [])
      in if length parts = 0 then ''< 1m'' else join '' '' parts)"
    using assms by (simp add: formatDuration_def Let_def)
  also have "\<dots> = duration_text sci [(whole d, ''d''), (whole h, ''h''), (whole m, ''m'')]"
    unfolding part_if by (simp add: duration_text_def Let_def)
  finally show ?thesis using assms by simp
qed

lemma fl_div_floor:
  fixes n c :: int and a :: nat
  assumes "0 \<le> n" and "0 < c" and "c \<le> 2 ^ a" and "a \<le> 52"
    and "real_of_int n / real_of_int c < 2 ^ (53 - a)"
  shows "\<exists>y. fl (of_int n / of_int c) = Fin y \<and> 0 \<le> y \<and> \<lfloor>y\<rfloor> = n div c"
proof -
  define x where "x = real_of_int n / real_of_int c"
  define k where "k = n div c"
  define e where "e = max (expo x) (- 1022)"
  have x0: "0 \<le> x" using assms(1,2) by (simp add: x_def)
  have kx: "of_int k \<le> x"
  proof -
    have "0 \<le> n mod c" using assms(2) by simp
    moreover have "n = k * c + n mod c" by (simp add: k_def)
    ultimately have "k * c \<le> n" by linarith
    then have "real_of_int (k * c) \<le> real_of_int n" by (simp only: of_int_le_iff)
    then show ?thesis using assms(2) by (simp add: x_def field_simps)
  qed
  have xk: "x \<le> of_int k + 1 - 1 / of_int c"
  proof -
    have "n mod c \<le> c - 1" using assms(2) by simp
    moreover have "n = k * c + n mod c" by (simp add: k_def)
    ultimately have "n \<le> k * c + c - 1" by linarith
    then have "real_of_int n \<le> real_of_int (k * c + c - 1)" by (simp only: of_int_le_iff)
    then show ?thesis using assms(2) by (simp add: x_def field_simps)
  qed
  have e_le: "e \<le> 52 - int a"
  proof (cases "x = 0")
    case True
    then show ?thesis using assms(4) by (simp add: e_def expo_zero)
  next
    case False
    have "\<bar>x\<bar> < 2 powi (53 - int a)"
      using assms(4,5) x0 by (simp add: x_def power_int_def nat_diff_distrib)
    then have "expo x < 53 - int a" using False by (simp add: expo_less)
    then show ?thesis using assms(4) by (simp add: e_def)
  qed
  then have e52: "max (expo x) (- 1022) \<le> 52" by (simp add: e_def)
  have q_le: "quantum x \<le> 1 / of_int c"
  proof -
    have "e - 52 \<le> - int a" using e_le by simp
    then have "(2::real) powi (e - 52) \<le> 2 powi (- int a)" by (rule power_int_increasing) simp
    then have "quantum x \<le> 1 / 2 ^ a" by (simp add: quantum_def e_def power_int_minus_divide)
    also have "\<dots> \<le> 1 / of_int c"
    proof -
      have "real_of_int c \<le> real_of_int (2 ^ a)" using assms(3) by (simp only: of_int_le_iff)
      then show ?thesis using assms(2) by (simp add: frac_le)
    qed
    finally show ?thesis .
  qed
  note mult = int_multiple [OF e52, of "k + 1"]
  define J where "J = (k + 1) * 2 ^ nat (52 - max (expo x) (- 1022))"
  have J: "of_int k + 1 = of_int J * quantum x" using mult by (simp add: J_def)
  have "x \<le> of_int k + 1 - quantum x" using xk q_le by linarith
  also have "\<dots> = of_int (J - 1) * quantum x" using J by (simp add: algebra_simps)
  finally have "rounded x \<le> of_int (J - 1) * quantum x" by (rule rounded_le)
  also have "\<dots> = of_int k + 1 - quantum x" using J by (simp add: algebra_simps)
  also have "\<dots> < of_int k + 1" using quantum_pos [of x] by simp
  finally have hi: "rounded x < of_int k + 1" .
  have "\<bar>x\<bar> < 2 ^ 53"
  proof -
    have "x < 2 ^ (53 - a)" using assms(5) by (simp add: x_def)
    also have "(2::real) ^ (53 - a) \<le> 2 ^ 53" by (rule power_increasing) simp_all
    finally show ?thesis using x0 by simp
  qed
  then have lo: "of_int k \<le> rounded x" using kx by (rule rounded_ge_int)
  have r0: "0 \<le> rounded x" using x0 by (rule rounded_nonneg)
  have "\<lfloor>rounded x\<rfloor> = k" using lo hi by (simp add: floor_eq_iff)
  moreover have "fl x = Fin (rounded x)"
  proof -
    have "rounded x \<le> 2 powi 53"
      by (rule rounded_le_pow) (use \<open>\<bar>x\<bar> < 2 ^ 53\<close> x0 in simp_all)
    also have "(2::real) powi 53 < 2 ^ 1024" by simp
    finally have "\<bar>rounded x\<bar> < 2 ^ 1024" using r0 by simp
    then show ?thesis using r0 by (simp add: fl_def)
  qed
  ultimately show ?thesis using r0 by (auto simp add: x_def k_def)
qed

lemma whole_ms_components:
  fixes n :: int
  assumes "0 \<le> n" and "n \<le> 5000000000000000"
  shows "days_of (Fin (of_int n)) = Fin (of_int (n div 86400000))"
    and "hours_of (Fin (of_int n)) = Fin (of_int (n div 3600000 mod 24))"
    and "minutes_of (Fin (of_int n)) = Fin (of_int (n div 60000 mod 60))"
proof -
  have r: "real_of_int n \<le> 5000000000000000"
  proof -
    have "real_of_int n \<le> real_of_int 5000000000000000" using assms(2) by (simp only: of_int_le_iff)
    then show ?thesis by simp
  qed
  have "real_of_int n / real_of_int 60000 < 2 ^ (53 - 16)" using r by simp
  then obtain y1 where y1: "fl (of_int n / of_int 60000) = Fin y1" "0 \<le> y1"
      "\<lfloor>y1\<rfloor> = n div 60000"
    using fl_div_floor [of n 60000 16] assms(1) by auto
  have "real_of_int n / real_of_int 3600000 < 2 ^ (53 - 22)" using r by simp
  then obtain y2 where y2: "fl (of_int n / of_int 3600000) = Fin y2" "0 \<le> y2"
      "\<lfloor>y2\<rfloor> = n div 3600000"
    using fl_div_floor [of n 3600000 22] assms(1) by auto
  have "real_of_int n / real_of_int 86400000 < 2 ^ (53 - 27)" using r by simp
  then obtain y3 where y3: "fl (of_int n / of_int 86400000) = Fin y3" "0 \<le> y3"
      "\<lfloor>y3\<rfloor> = n div 86400000"
    using fl_div_floor [of n 86400000 27] assms(1) by auto
  show "minutes_of (Fin (of_int n)) = Fin (of_int (n div 60000 mod 60))"
    using component_of_quotient(1) [OF y1(1,2), of 60] y1(3) by (simp add: minutes_of_def)
  show "hours_of (Fin (of_int n)) = Fin (of_int (n div 3600000 mod 24))"
    using component_of_quotient(1) [OF y2(1,2), of 24] y2(3) by (simp add: hours_of_def)
  show "days_of (Fin (of_int n)) = Fin (of_int (n div 86400000))"
    using component_of_quotient(2) [OF y3(1,2), of 1] y3(3) by (simp add: days_of_def)
qed

lemma whole_of_int: "0 \<le> n \<Longrightarrow> Fin (of_int n) = whole (nat n)"
  by (simp add: whole_def)

lemma formatDuration_whole_ms:
  fixes n :: int
  assumes "0 \<le> n" and "n \<le> 5000000000000000"
  shows "formatDuration sci (Fin (of_int n)) =
           duration_text sci [(Fin (of_int (n div 86400000)), ''d''),
                              (Fin (of_int (n div 3600000 mod 24)), ''h''),
                              (Fin (of_int (n div 60000 mod 60)), ''m'')]"
proof -
  note c = whole_ms_components [OF assms]
  have d: "days_of (Fin (of_int n)) = whole (nat (n div 86400000))"
    unfolding c(1) by (rule whole_of_int) (use assms(1) in \<open>simp add: pos_imp_zdiv_nonneg_iff\<close>)
  have h: "hours_of (Fin (of_int n)) = whole (nat (n div 3600000 mod 24))"
    unfolding c(2) by (rule whole_of_int) simp
  have m: "minutes_of (Fin (of_int n)) = whole (nat (n div 60000 mod 60))"
    unfolding c(3) by (rule whole_of_int) simp
  have "\<not> js_lt (Fin (of_int n)) (Fin 0)" using assms(1) by simp
  from formatDuration_components [OF this d h m, of sci] show ?thesis by (simp only: c)
qed

lemma text_eval:
  "duration_text sci [(Fin 0, ''d''), (Fin 0, ''h''), (Fin 1, ''m'')] = ''1m''"
  "duration_text sci [(Fin 1, ''d''), (Fin 1, ''h''), (Fin 0, ''m'')] = ''1d 1h''"
  by (simp_all add: duration_text_def digits.simps digit_char_def)

text \<open>
  Claim C9. \<open>formatDuration\<close> returns \<^verbatim>\<open>Unknown\<close> for every negative input, \<^verbatim>\<open>< 1m\<close> for every
  double from \<open>0\<close> up to but not including \<open>60000\<close>, \<^verbatim>\<open>1m\<close> for \<open>90000\<close> and for \<open>61000\<close>,
  and \<^verbatim>\<open>1d 1h\<close> for \<open>90000000\<close>. For every double that is not negative the days, hours
  and minutes it computes are whole numbers, and its result is the duration text of
  these three components, in which the components that are zero are left out. For a
  whole number of milliseconds up to \<open>5 \<times> 10\<^sup>1\<^sup>5\<close> the components are the whole days, the
  whole hours modulo 24 and the whole minutes modulo 60.
\<close>

theorem formatDuration_cases:
  fixes n :: int
  shows
  "(js_lt ms (Fin 0) \<longrightarrow> formatDuration sci ms = ''Unknown'')
   \<and> (is_double r \<and> 0 \<le> r \<and> r < 60000 \<longrightarrow> formatDuration sci (Fin r) = ''< 1m'')
   \<and> formatDuration sci (Fin 90000) = ''1m''
   \<and> formatDuration sci (Fin 61000) = ''1m''
   \<and> formatDuration sci (Fin 90000000) = ''1d 1h''
   \<and> (is_double s \<and> 0 \<le> s \<longrightarrow>
         (\<exists>d h m. days_of (Fin s) = whole d \<and> hours_of (Fin s) = whole h
             \<and> minutes_of (Fin s) = whole m)
         \<and> formatDuration sci (Fin s) =
             duration_text sci [(days_of (Fin s), ''d''), (hours_of (Fin s), ''h''),
                                (minutes_of (Fin s), ''m'')])
   \<and> (0 \<le> n \<and> n \<le> 5000000000000000 \<longrightarrow>
         days_of (Fin (of_int n)) = Fin (of_int (n div 86400000))
         \<and> hours_of (Fin (of_int n)) = Fin (of_int (n div 3600000 mod 24))
         \<and> minutes_of (Fin (of_int n)) = Fin (of_int (n div 60000 mod 60)))"
proof -
  have neg: "formatDuration sci ms = ''Unknown''" if "js_lt ms (Fin 0)"
    using that by (simp add: formatDuration_def)
  have small: "formatDuration sci (Fin r) = ''< 1m''"
    if "is_double r" and "0 \<le> r" and "r < 60000"
    using that by (rule formatDuration_small)
  have a: "formatDuration sci (Fin 90000) = ''1m''"
    using formatDuration_whole_ms [of 90000 sci] by (simp add: text_eval)
  have b: "formatDuration sci (Fin 61000) = ''1m''"
    using formatDuration_whole_ms [of 61000 sci] by (simp add: text_eval)
  have c: "formatDuration sci (Fin 90000000) = ''1d 1h''"
    using formatDuration_whole_ms [of 90000000 sci] by (simp add: text_eval)
  have omit: "(\<exists>d h m. days_of (Fin s) = whole d \<and> hours_of (Fin s) = whole h
             \<and> minutes_of (Fin s) = whole m)
         \<and> formatDuration sci (Fin s) =
             duration_text sci [(days_of (Fin s), ''d''), (hours_of (Fin s), ''h''),
                                (minutes_of (Fin s), ''m'')]"
    if d: "is_double s" and s0: "0 \<le> s"
  proof -
    obtain d h m where w: "days_of (Fin s) = whole d" "hours_of (Fin s) = whole h"
        "minutes_of (Fin s) = whole m"
      using components_whole [OF d s0] by blast
    have "\<not> js_lt (Fin s) (Fin 0)" using s0 by simp
    from formatDuration_components [OF this w, of sci] w show ?thesis by blast
  qed
  have whole_ms: "days_of (Fin (of_int n)) = Fin (of_int (n div 86400000))
         \<and> hours_of (Fin (of_int n)) = Fin (of_int (n div 3600000 mod 24))
         \<and> minutes_of (Fin (of_int n)) = Fin (of_int (n div 60000 mod 60))"
    if "0 \<le> n" and "n \<le> 5000000000000000"
    using whole_ms_components [OF that] by simp
  show ?thesis using neg small a b c omit whole_ms by blast
qed

theorem formatDuration_cases_witness:
  "js_lt (Fin (- 5)) (Fin 0) \<and> formatDuration (\<lambda>x. []) (Fin (- 5)) = ''Unknown''
   \<and> js_lt NegInf (Fin 0) \<and> formatDuration (\<lambda>x. []) NegInf = ''Unknown''
   \<and> is_double 59999 \<and> (0::real) \<le> 59999 \<and> (59999::real) < 60000
   \<and> formatDuration (\<lambda>x. []) (Fin 59999) = ''< 1m''
   \<and> is_double 0 \<and> formatDuration (\<lambda>x. []) (Fin 0) = ''< 1m''
   \<and> is_double 266400000 \<and> (0::real) \<le> 266400000
   \<and> (0::int) \<le> 266400000 \<and> (266400000::int) \<le> 5000000000000000
   \<and> days_of (Fin 266400000) = Fin 3 \<and> hours_of (Fin 266400000) = Fin 2
   \<and> minutes_of (Fin 266400000) = Fin 0
   \<and> formatDuration (\<lambda>x. []) (Fin 266400000) = ''3d 2h''"
  using formatDuration_cases [of "Fin (- 5)" "\<lambda>x. []" 59999 266400000 266400000]
    formatDuration_cases [of NegInf "\<lambda>x. []" 0 0 0]
  by (simp add: is_double_def duration_text_def digits.simps digit_char_def)

section \<open>The estimate is never negative: proofs\<close>

lemma not_le0_cases:
  "\<not> js_le x (Fin 0) \<Longrightarrow> x = NaN \<or> x = PosInf \<or> (\<exists>y. x = Fin y \<and> 0 < y)"
  by (cases x) (auto simp add: js_le_def)

lemma le100_cases: "js_le p (Fin 100) \<Longrightarrow> p = NegInf \<or> (\<exists>y. p = Fin y \<and> y \<le> 100)"
  by (cases p) (auto simp add: js_le_def)

lemma fl_never_negative: "0 \<le> x \<Longrightarrow> never_negative (fl x)"
  using fl_nonneg [of x] by auto

lemma rate_never_negative:
  assumes "\<not> js_le pd (Fin 0)" and "\<not> js_le td (Fin 0)"
  shows "never_negative (msPerPercent td pd)"
proof -
  from not_le0_cases [OF assms(1)] not_le0_cases [OF assms(2)]
  show ?thesis
    by (auto simp add: msPerPercent_def signed_inf_def intro!: fl_never_negative)
qed

lemma remaining_percent_cases:
  assumes "js_le p (Fin 100)"
  shows "js_sub (Fin 100) p = PosInf \<or> (\<exists>a. js_sub (Fin 100) p = Fin a \<and> 0 \<le> a)"
proof -
  from le100_cases [OF assms] show ?thesis
  proof
    assume "p = NegInf"
    then show ?thesis by (simp add: js_sub_def)
  next
    assume "\<exists>y. p = Fin y \<and> y \<le> 100"
    then obtain y where y: "p = Fin y" "y \<le> 100" by blast
    then have "0 \<le> 100 + - y" by simp
    from fl_nonneg [OF this] show ?thesis using y by (simp add: js_sub_def)
  qed
qed

lemma product_never_negative:
  assumes "rp = PosInf \<or> (\<exists>a. rp = Fin a \<and> 0 \<le> a)" and "never_negative r"
  shows "never_negative (js_mul rp r)"
  using assms
  by (cases r)
     (auto simp add: signed_inf_def sgn_if mult_less_0_iff intro!: fl_never_negative)

lemma remaining_not_negative:
  assumes "\<not> js_le pd (Fin 0)" and "\<not> js_le td (Fin 0)" and "js_le p1 (Fin 100)"
  shows "never_negative (js_mul (js_sub (Fin 100) p1) (msPerPercent td pd))"
  using remaining_percent_cases [OF assms(3)] rate_never_negative [OF assms(1,2)]
  by (rule product_never_negative)

lemma never_negative_not_lt: "never_negative r \<Longrightarrow> \<not> js_lt r (Fin 0)"
  by (cases r) auto

lemma never_negative_ge: "never_negative r \<Longrightarrow> r \<noteq> NaN \<Longrightarrow> js_le (Fin 0) r"
  by (cases r) (auto simp add: js_le_def)

lemma join_nonempty: "ps \<noteq> [] \<Longrightarrow> last ps \<noteq> [] \<Longrightarrow> join sep ps \<noteq> []"
  by (induction sep ps rule: join.induct) auto

lemma join_last: "ps \<noteq> [] \<Longrightarrow> last ps \<noteq> [] \<Longrightarrow> last (join sep ps) = last (last ps)"
  by (induction sep ps rule: join.induct) (auto simp add: join_nonempty)

lemma formatDuration_known:
  assumes "\<not> js_lt ms (Fin 0)"
  shows "formatDuration sci ms \<noteq> ''Unknown''"
proof -
  define parts where "parts =
      (if js_gt (days_of ms) (Fin 0) then [to_string sci (days_of ms) @ ''d''] else [])
    @ (if js_gt (hours_of ms) (Fin 0) then [to_string sci (hours_of ms) @ ''h''] else [])
    @ (if js_gt (minutes_of ms) (Fin 0) then [to_string sci (minutes_of ms) @ ''m''] else [])"
  have fd: "formatDuration sci ms = (if length parts = 0 then ''< 1m'' else join '' '' parts)"
    using assms by (simp add: formatDuration_def Let_def parts_def)
  show ?thesis
  proof (cases "parts = []")
    case True
    then show ?thesis using fd by simp
  next
    case False
    then have "last parts \<noteq> [] \<and> last (last parts) \<in> {CHR ''d'', CHR ''h'', CHR ''m''}"
      by (auto simp add: parts_def split: if_splits)
    then have "last (join '' '' parts) \<in> {CHR ''d'', CHR ''h'', CHR ''m''}"
      using False by (simp add: join_last)
    moreover have "last ''Unknown'' = CHR ''n''" by simp
    ultimately have "join '' '' parts \<noteq> ''Unknown''" by auto
    then show ?thesis using fd False by simp
  qed
qed

lemma estimate_SomeD:
  assumes "estimate h = Inr (Some e)"
  shows "2 \<le> length h
       \<and> \<not> js_le (js_sub (percent (last h)) (percent (hd h))) (Fin 0)
       \<and> \<not> js_le (js_sub (timestamp (last h)) (timestamp (hd h))) (Fin 0)
       \<and> remainingMs e = js_mul (js_sub (Fin 100) (percent (last h)))
                          (msPerPercent (js_sub (timestamp (last h)) (timestamp (hd h)))
                                        (js_sub (percent (last h)) (percent (hd h))))
       \<and> completionDate e = new_Date (js_add (timestamp (last h)) (remainingMs e))"
proof -
  have len: "2 \<le> length h"
  proof (rule ccontr)
    assume "\<not> 2 \<le> length h"
    then have "estimate h = Inr None" by (simp add: estimate_short)
    then show False using assms by simp
  qed
  show ?thesis
    using assms len by (auto simp add: estimate_endpoints split: if_splits)
qed

lemma trunc_ge: "of_int n \<le> v \<Longrightarrow> n \<le> trunc v"
proof -
  assume a: "of_int n \<le> v"
  then have "n \<le> \<lfloor>v\<rfloor>" by (simp add: le_floor_iff)
  moreover have "\<lfloor>v\<rfloor> \<le> \<lceil>v\<rceil>" by (rule floor_le_ceiling)
  ultimately have "n \<le> \<lfloor>v\<rfloor> \<and> n \<le> \<lceil>v\<rceil>" by linarith
  then show ?thesis by (simp add: trunc_def)
qed

lemma completion_after:
  fixes n :: int
  assumes "never_negative rem" and "\<bar>n\<bar> \<le> 8640000000000000"
    and "new_Date (js_add (Fin (of_int n)) rem) = Date (Fin c)"
  shows "of_int n \<le> c"
proof -
  have clip: "time_clip (js_add (Fin (of_int n)) rem) = Fin c"
    using assms(3) by (simp add: new_Date_def)
  obtain v where v: "js_add (Fin (of_int n)) rem = Fin v"
    using clip by (cases "js_add (Fin (of_int n)) rem") simp_all
  have c: "\<bar>v\<bar> \<le> 8640000000000000" "c = of_int (trunc v)"
    using clip v by (simp_all split: if_splits)
  obtain r where r: "rem = Fin r" "0 \<le> r"
    using v assms(1) by (cases rem) simp_all
  define x where "x = of_int n + r"
  have f: "fl x = Fin v" using v r by (simp add: x_def)
  have nx: "of_int n \<le> x" using r by (simp add: x_def)
  have rv: "rounded x = v"
  proof -
    have "\<not> 2 ^ 1024 \<le> \<bar>rounded x\<bar>"
    proof
      assume "2 ^ 1024 \<le> \<bar>rounded x\<bar>"
      then have "fl x = NegInf \<or> fl x = PosInf" by (simp add: fl_def)
      then show False using f by auto
    qed
    then have "fl x = Fin (rounded x)" by (simp add: fl_def)
    then show ?thesis using f by simp
  qed
  have lower: "- (2 ^ 53) < x"
  proof -
    have "- 8640000000000000 \<le> n" using assms(2) by simp
    then have "real_of_int (- 8640000000000000) \<le> real_of_int n" by (simp only: of_int_le_iff)
    then show ?thesis using nx by simp
  qed
  have upper: "x < 2 ^ 53"
  proof (rule ccontr)
    assume "\<not> x < 2 ^ 53"
    then have "2 ^ 53 \<le> x" by simp
    then have "2 ^ 53 \<le> rounded x" by (rule rounded_ge_pow)
    then show False using rv c(1) by simp
  qed
  have "\<bar>x\<bar> < 2 ^ 53" using lower upper by simp
  then have "of_int n \<le> rounded x" using nx by (rule rounded_ge_int)
  then have "n \<le> trunc v" using rv by (simp add: trunc_ge)
  then have "real_of_int n \<le> real_of_int (trunc v)" by (simp only: of_int_le_iff)
  then show ?thesis using c(2) by simp
qed

text \<open>
  Claim C10, amended. When \<open>estimate\<close> returns a result for a History whose last percent
  is at most 100, the remaining duration is never negative: it is \<^verbatim>\<open>>= 0\<close> unless it is
  \<^verbatim>\<open>NaN\<close>. So \<open>formatDuration\<close> does not answer \<^verbatim>\<open>Unknown\<close> for it. When the last timestamp
  is a whole number of milliseconds in the range of dates, as \<^verbatim>\<open>getTime\<close> gives, and the
  completion date is a valid date, the completion date is at or after the last
  timestamp.
\<close>

theorem estimate_not_negative:
  fixes n :: int
  shows
  "estimate h = Inr (Some e) \<and> js_le (percent (last h)) (Fin 100) \<longrightarrow>
     \<not> js_lt (remainingMs e) (Fin 0)
     \<and> formatDuration sci (remainingMs e) \<noteq> ''Unknown''
     \<and> (remainingMs e \<noteq> NaN \<longrightarrow> js_le (Fin 0) (remainingMs e))
     \<and> (timestamp (last h) = Fin (of_int n) \<and> \<bar>n\<bar> \<le> 8640000000000000
          \<and> completionDate e = Date (Fin c)
        \<longrightarrow> js_le (timestamp (last h)) (Fin c))"
proof (intro impI, elim conjE)
  assume est: "estimate h = Inr (Some e)" and le: "js_le (percent (last h)) (Fin 100)"
  note d = estimate_SomeD [OF est]
  have nn: "never_negative (remainingMs e)"
    using d le by (simp add: remaining_not_negative)
  then have a: "\<not> js_lt (remainingMs e) (Fin 0)" by (rule never_negative_not_lt)
  then have b: "formatDuration sci (remainingMs e) \<noteq> ''Unknown''"
    by (rule formatDuration_known)
  have g: "remainingMs e \<noteq> NaN \<longrightarrow> js_le (Fin 0) (remainingMs e)"
    using nn by (simp add: never_negative_ge)
  have k: "js_le (timestamp (last h)) (Fin c)"
    if "timestamp (last h) = Fin (of_int n)" and "\<bar>n\<bar> \<le> 8640000000000000"
      and "completionDate e = Date (Fin c)"
  proof -
    have "new_Date (js_add (Fin (of_int n)) (remainingMs e)) = Date (Fin c)"
      using d that by simp
    from completion_after [OF nn that(2) this] show ?thesis
      using that(1) by (auto simp add: js_le_def)
  qed
  show "\<not> js_lt (remainingMs e) (Fin 0)
     \<and> formatDuration sci (remainingMs e) \<noteq> ''Unknown''
     \<and> (remainingMs e \<noteq> NaN \<longrightarrow> js_le (Fin 0) (remainingMs e))
     \<and> (timestamp (last h) = Fin (of_int n) \<and> \<bar>n\<bar> \<le> 8640000000000000
          \<and> completionDate e = Date (Fin c)
        \<longrightarrow> js_le (timestamp (last h)) (Fin c))"
    using a b g k by blast
qed

theorem estimate_not_negative_witness:
  "estimate [\<lparr> timestamp = Fin 0, percent = Fin 10 \<rparr>,
             \<lparr> timestamp = Fin 600000, percent = Fin 20 \<rparr>] =
     Inr (Some \<lparr> remainingMs = Fin 4800000, completionDate = Date (Fin 5400000) \<rparr>)
   \<and> js_le (Fin 20) (Fin 100)
   \<and> Fin 4800000 \<noteq> NaN
   \<and> js_le (Fin 0) (Fin 4800000)
   \<and> Fin 600000 = Fin (of_int 600000) \<and> \<bar>600000 :: int\<bar> \<le> 8640000000000000
   \<and> js_le (Fin 600000) (Fin 5400000)
   \<and> formatDuration (\<lambda>x. []) (Fin 4800000) \<noteq> ''Unknown''"
  using estimate_not_negative [of "[\<lparr> timestamp = Fin 0, percent = Fin 10 \<rparr>,
             \<lparr> timestamp = Fin 600000, percent = Fin 20 \<rparr>]"
             "\<lparr> remainingMs = Fin 4800000, completionDate = Date (Fin 5400000) \<rparr>"
             "\<lambda>x. []" 600000 5400000]
    estimate_steps [of "Fin 600000" "Fin 0" "Fin 600000" "Fin 20" "Fin 10" "Fin 10"
      "Fin 60000" "Fin 80" "Fin 4800000" "Date (Fin 5400000)"]
  by (simp add: js_sub_def js_le_def msPerPercent_def new_Date_def trunc_def)

text \<open>
  Claim C10 as stated fails. Two polls, the first with an unreadable date and so the
  timestamp \<^verbatim>\<open>NaN\<close>, give a History whose time difference is \<^verbatim>\<open>NaN\<close>. \<^verbatim>\<open>NaN <= 0\<close> is false,
  so \<open>estimate\<close> returns a result; its remaining duration is \<^verbatim>\<open>NaN\<close>, which is not
  \<^verbatim>\<open>>= 0\<close>, and its completion date is not at or after the last timestamp. With two
  readable dates a day apart and a progress of \<open>2\<^sup>-\<^sup>2\<^sup>0\<close> percent, the completion lies beyond
  the range of dates: the completion date is the invalid date.
\<close>

theorem estimate_NaN_counterexample:
  "fst (record_all [(Fin 5, NaN), (Fin 10, Fin 1000)] ([], empty_cache)) =
     [\<lparr> timestamp = NaN, percent = Fin 5 \<rparr>, \<lparr> timestamp = Fin 1000, percent = Fin 10 \<rparr>]
   \<and> estimate [\<lparr> timestamp = NaN, percent = Fin 5 \<rparr>, \<lparr> timestamp = Fin 1000, percent = Fin 10 \<rparr>] =
       Inr (Some \<lparr> remainingMs = NaN, completionDate = Date NaN \<rparr>)
   \<and> js_le (Fin 10) (Fin 100)
   \<and> \<not> js_le (Fin 0) NaN
   \<and> \<not> js_le (Fin 1000) NaN
   \<and> estimate [\<lparr> timestamp = Fin 1700000000000, percent = Fin 0 \<rparr>,
               \<lparr> timestamp = Fin 1700086400000, percent = Fin (1 / 1048576) \<rparr>] =
       Inr (Some \<lparr> remainingMs = Fin 9059696553600000, completionDate = Date NaN \<rparr>)
   \<and> js_le (Fin (1 / 1048576)) (Fin 100)
   \<and> \<not> js_le (Fin 1700086400000) NaN"
proof -
  have a: "fst (record_all [(Fin 5, NaN), (Fin 10, Fin 1000)] ([], empty_cache)) =
     [\<lparr> timestamp = NaN, percent = Fin 5 \<rparr>, \<lparr> timestamp = Fin 1000, percent = Fin 10 \<rparr>]"
    by (simp add: record_all_def record_observation_cases)
  have b: "estimate [\<lparr> timestamp = NaN, percent = Fin 5 \<rparr>,
                     \<lparr> timestamp = Fin 1000, percent = Fin 10 \<rparr>] =
       Inr (Some \<lparr> remainingMs = NaN, completionDate = Date NaN \<rparr>)"
    by (rule estimate_steps [where td = NaN and pd = "Fin 5" and r = NaN and rp = "Fin 90"])
       (simp_all add: js_sub_def js_le_def msPerPercent_def new_Date_def)
  have c: "estimate [\<lparr> timestamp = Fin 1700000000000, percent = Fin 0 \<rparr>,
               \<lparr> timestamp = Fin 1700086400000, percent = Fin (1 / 1048576) \<rparr>] =
       Inr (Some \<lparr> remainingMs = Fin 9059696553600000, completionDate = Date NaN \<rparr>)"
    by (rule estimate_steps [where td = "Fin 86400000" and pd = "Fin (1 / 1048576)"
          and r = "Fin 90596966400000" and rp = "Fin (104857599 / 1048576)"])
       (simp_all add: js_sub_def js_le_def msPerPercent_def new_Date_def fl_eval)
  show ?thesis using a b c by (simp add: js_le_def)
qed

end
